theory Spec2Isabelle
  imports Complex_Main "HOL-Library.Word" "HOL-Library.Sublist"
begin

section \<open>Errors\<close>

text \<open>
  The source raises plain JavaScript \<open>Error\<close> objects that carry a message, and the
  runtime raises \<open>TypeError\<close> (for instance \<open>reduce\<close> of an empty array without an
  initial value). Both are values here.
\<close>

datatype error = Error string | TypeError string

section \<open>Evaluation metrics: \<open>Predictor.calculateMetrics\<close>\<close>

text \<open>
  A confusion matrix is an array of rows. The source reads every cell as
  \<open>confusionMatrix[i][j] || 0\<close>, so a cell that is absent (a short row) reads as 0.
  The row \<open>confusionMatrix[i]\<close> itself always exists, since \<open>i < confusionMatrix.length\<close>.
  JavaScript numbers are modelled as exact reals: counts are integers and each quotient
  is taken exactly.
\<close>

definition cell :: "int list list \<Rightarrow> nat \<Rightarrow> nat \<Rightarrow> int" where
  "cell m i j = (if i < length m \<and> j < length (m ! i) then m ! i ! j else 0)"

record metrics =
  accuracy :: real
  precision :: "real list"
  recall :: "real list"
  f1Score :: "real list"
  support :: "int list"

text \<open>The inner loop over \<open>j\<close>: one step, then the loop from 0 to \<open>numClasses\<close>.\<close>

definition inner_step :: "int list list \<Rightarrow> nat \<Rightarrow> nat \<Rightarrow> int \<times> int \<Rightarrow> int \<times> int" where
  "inner_step m i j acc =
     (case acc of (falsePositives, falseNegatives) \<Rightarrow>
        if i \<noteq> j then (falsePositives + cell m j i, falseNegatives + cell m i j)
        else (falsePositives, falseNegatives))"

definition inner_loop :: "int list list \<Rightarrow> nat \<Rightarrow> int \<times> int" where
  "inner_loop m i = fold (inner_step m i) [0..<length m] (0, 0)"

text \<open>The state of the outer loop: the metrics built so far and the two running totals.\<close>

record loop_state =
  ms :: metrics
  correctPredictions :: int
  totalPredictions :: int

definition outer_step :: "int list list \<Rightarrow> nat \<Rightarrow> loop_state \<Rightarrow> loop_state" where
  "outer_step m i st =
     (let truePositives = cell m i i;
          (falsePositives, falseNegatives) = inner_loop m i;
          prec = (if truePositives + falsePositives > 0
                  then real_of_int truePositives / real_of_int (truePositives + falsePositives)
                  else 0);
          rec = (if truePositives + falseNegatives > 0
                 then real_of_int truePositives / real_of_int (truePositives + falseNegatives)
                 else 0);
          f1 = (if prec + rec > 0 then 2 * (prec * rec) / (prec + rec) else 0)
      in \<lparr> ms = (ms st)\<lparr> precision := precision (ms st) @ [prec],
                           recall := recall (ms st) @ [rec],
                           f1Score := f1Score (ms st) @ [f1],
                           support := support (ms st) @ [truePositives + falseNegatives] \<rparr>,
           correctPredictions = correctPredictions st + truePositives,
           totalPredictions = totalPredictions st
                              + (truePositives + falsePositives + falseNegatives) \<rparr>)"

definition initial_loop_state :: loop_state where
  "initial_loop_state =
     \<lparr> ms = \<lparr> accuracy = 0, precision = [], recall = [], f1Score = [], support = [] \<rparr>,
       correctPredictions = 0, totalPredictions = 0 \<rparr>"

text \<open>
  The argument is \<open>None\<close> for a value that is null or not an array, which the source
  rejects before anything else.
\<close>

definition calculateMetrics :: "int list list option \<Rightarrow> error + metrics" where
  "calculateMetrics confusionMatrix =
     (case confusionMatrix of
        None \<Rightarrow> Inl (Error ''Invalid confusion matrix'')
      | Some m \<Rightarrow>
          (let st = fold (outer_step m) [0..<length m] initial_loop_state
           in Inr ((ms st)\<lparr> accuracy :=
                     (if totalPredictions st > 0
                      then real_of_int (correctPredictions st) / real_of_int (totalPredictions st)
                      else 0) \<rparr>)))"

section \<open>JavaScript arrays and objects\<close>

text \<open>
  Reading an array beyond its length gives \<open>undefined\<close>, here \<open>None\<close>. A comparison
  \<open>a <= b\<close> with \<open>undefined\<close> on either side is false.
\<close>

definition js_nth :: "'a list \<Rightarrow> nat \<Rightarrow> 'a option" where
  "js_nth xs i = (if i < length xs then Some (xs ! i) else None)"

definition js_le :: "real option \<Rightarrow> real option \<Rightarrow> bool" where
  "js_le a b = (case a of None \<Rightarrow> False
                | Some x \<Rightarrow> (case b of None \<Rightarrow> False | Some y \<Rightarrow> x \<le> y))"

text \<open>\<open>[...new Set(xs)]\<close>: the distinct elements in the order of their first occurrence.\<close>

fun js_unique_acc :: "'a list \<Rightarrow> 'a list \<Rightarrow> 'a list" where
  "js_unique_acc seen [] = seen"
| "js_unique_acc seen (x # xs) =
     (if x \<in> set seen then js_unique_acc seen xs else js_unique_acc (seen @ [x]) xs)"

definition js_unique :: "'a list \<Rightarrow> 'a list" where
  "js_unique xs = js_unique_acc [] xs"

text \<open>
  The counting objects of the source (\<open>counts\<close>, \<open>votes\<close>) have class indices as keys.
  \<open>Object.keys\<close> and \<open>Object.values\<close> enumerate such integer keys in ascending order,
  whatever the order of insertion, so the object is kept as a list of (key, count)
  pairs in ascending key order. \<open>obj_incr k\<close> is \<open>o[k] = (o[k] || 0) + 1\<close>, and
  \<open>obj_get o k\<close> is \<open>o[k] || 0\<close>. A key is the decimal string of a class index;
  \<open>parseInt\<close> of it is that index again.
\<close>

type_synonym counter = "(nat \<times> nat) list"

fun obj_incr :: "nat \<Rightarrow> counter \<Rightarrow> counter" where
  "obj_incr k [] = [(k, 1)]"
| "obj_incr k ((k', c) # rest) =
     (if k = k' then (k', c + 1) # rest
      else if k < k' then (k, 1) # (k', c) # rest
      else (k', c) # obj_incr k rest)"

definition obj_get :: "counter \<Rightarrow> nat \<Rightarrow> nat" where
  "obj_get obj k = (case map_of obj k of None \<Rightarrow> 0 | Some c \<Rightarrow> c)"

definition obj_keys :: "counter \<Rightarrow> nat list" where
  "obj_keys obj = map fst obj"

definition obj_values :: "counter \<Rightarrow> nat list" where
  "obj_values obj = map snd obj"

text \<open>
  \<open>xs.reduce(f)\<close> without an initial value: a \<open>TypeError\<close> on the empty array,
  otherwise the left fold that starts from the first element.
\<close>

definition js_reduce :: "('a \<Rightarrow> 'a \<Rightarrow> 'a) \<Rightarrow> 'a list \<Rightarrow> error + 'a" where
  "js_reduce f xs =
     (case xs of
        [] \<Rightarrow> Inl (TypeError ''Reduce of empty array with no initial value'')
      | x # rest \<Rightarrow> Inr (foldl f x rest))"

section \<open>Feature extraction: \<open>RandomForestTrainer\<close>\<close>

text \<open>
  The pixel buffer of \<open>getImageData\<close> holds four bytes per pixel (red, green, blue,
  alpha). The source always reads a 16 by 16 canvas, so the buffer holds 256 pixels.
\<close>

type_synonym pixel = "8 word \<times> 8 word \<times> 8 word \<times> 8 word"

definition bump :: "nat list \<Rightarrow> 8 word \<Rightarrow> nat list" where
  "bump hist c = (let bin = unat c div 64 in hist[bin := hist ! bin + 1])"

definition hist_step :: "pixel \<Rightarrow> nat list \<times> nat list \<times> nat list \<Rightarrow> nat list \<times> nat list \<times> nat list" where
  "hist_step px hists =
     (case px of (r, g, b, a) \<Rightarrow>
        (case hists of (rHist, gHist, bHist) \<Rightarrow> (bump rHist r, bump gHist g, bump bHist b)))"

definition mean_colour :: "nat list \<Rightarrow> real \<Rightarrow> real" where
  "mean_colour hist totalPixels =
     foldl (\<lambda>sum (idx, val). sum + real val * real (idx * 64 + 32)) 0
           (zip [0..<length hist] hist) / totalPixels / 255"

definition computeImageFeatures :: "pixel list \<Rightarrow> real list" where
  "computeImageFeatures data =
     (case fold hist_step data (replicate 4 0, replicate 4 0, replicate 4 0) of
        (rHist, gHist, bHist) \<Rightarrow>
          (let totalPixels = real (length data)
           in map (\<lambda>val. real val / totalPixels) rHist
              @ map (\<lambda>val. real val / totalPixels) gHist
              @ map (\<lambda>val. real val / totalPixels) bHist
              @ [mean_colour rHist totalPixels,
                 mean_colour gHist totalPixels,
                 mean_colour bHist totalPixels]))"

text \<open>
  Loading and drawing the image is the browser's work: \<open>decode\<close> gives the pixel
  buffer of an image URL, or the error with which the promise is rejected
  (\<open>Failed to load image\<close>, or what the canvas raises).
\<close>

type_synonym decoder = "string \<Rightarrow> error + pixel list"

definition extractImageFeatures :: "decoder \<Rightarrow> string \<Rightarrow> error + real list" where
  "extractImageFeatures decode imageDataUrl =
     (case decode imageDataUrl of
        Inl e \<Rightarrow> Inl e
      | Inr data \<Rightarrow> Inr (computeImageFeatures data))"

text \<open>
  The batch loop. A sample whose extraction fails gets \<open>new Array(24).fill(0)\<close>. The
  progress callback only reports; it is left out.
\<close>

fun extractFeatures :: "decoder \<Rightarrow> string list \<Rightarrow> real list list" where
  "extractFeatures decode [] = []"
| "extractFeatures decode (imageDataUrl # images) =
     (case extractImageFeatures decode imageDataUrl of
        Inr feature \<Rightarrow> feature
      | Inl e \<Rightarrow> replicate 24 0) # extractFeatures decode images"

section \<open>Decision trees\<close>

text \<open>
  A leaf built by \<open>createLeafNode\<close> carries a distribution; the leaf built when all
  labels agree does not. A threshold is one of the values read from the feature
  vectors, so it can be \<open>undefined\<close> when the vectors differ in length.
\<close>

datatype tree =
    Leaf nat nat "counter option"
  | Node nat "real option" tree tree

text \<open>
  The parallel arrays \<open>features\<close> and \<open>labels\<close> are filled in lockstep everywhere in
  the source (\<open>DatasetManager.prepareTrainingData\<close>, the bootstrap loop, the split
  loop), so they are one list of samples here.
\<close>

type_synonym sample = "real list \<times> nat"

definition createLeafNode :: "nat list \<Rightarrow> error + tree" where
  "createLeafNode labels =
     (let counts = fold obj_incr labels []
      in case js_reduce (\<lambda>a b. if obj_get counts a > obj_get counts b then a else b)
                        (obj_keys counts) of
           Inl e \<Rightarrow> Inl e
         | Inr majorityLabel \<Rightarrow> Inr (Leaf majorityLabel (length labels) (Some counts)))"

definition calculateEntropy :: "nat list \<Rightarrow> real" where
  "calculateEntropy labels =
     (if length labels = 0 then 0
      else fold (\<lambda>count entropy.
                   (let probability = real count / real (length labels)
                    in entropy - probability * log 2 probability))
                (obj_values (fold obj_incr labels [])) 0)"

definition goes_left :: "nat \<Rightarrow> real option \<Rightarrow> sample \<Rightarrow> bool" where
  "goes_left featureIndex threshold s = js_le (js_nth (fst s) featureIndex) threshold"

definition calculateInformationGain :: "sample list \<Rightarrow> nat \<Rightarrow> real option \<Rightarrow> real" where
  "calculateInformationGain samples featureIndex threshold =
     (let leftLabels = map snd (filter (goes_left featureIndex threshold) samples);
          rightLabels = map snd (filter (\<lambda>s. \<not> goes_left featureIndex threshold s) samples);
          total = real (length samples);
          leftEntropy = calculateEntropy leftLabels;
          rightEntropy = calculateEntropy rightLabels
      in calculateEntropy (map snd samples)
         - (real (length leftLabels) / total) * leftEntropy
         - (real (length rightLabels) / total) * rightEntropy)"

subsection \<open>The random source\<close>

text \<open>
  \<open>Math.random()\<close> returns a number in [0, 1). The random source is a sequence
  \<open>rng\<close> of reals, read at a counter that every call advances; the call returns the
  fractional part, so that every sequence is a random source and every value in
  [0, 1) can be drawn. \<open>random_index rng k n\<close> is \<open>Math.floor(Math.random() * n)\<close>
  at counter \<open>k\<close>.
\<close>

type_synonym rng = "nat \<Rightarrow> real"

definition random_index :: "rng \<Rightarrow> nat \<Rightarrow> nat \<Rightarrow> nat" where
  "random_index rng k n = nat \<lfloor>frac (rng k) * real n\<rfloor>"

subsection \<open>\<open>findBestSplit\<close>\<close>

record split =
  sp_featureIndex :: nat
  sp_threshold :: "real option"
  sp_gain :: real

text \<open>
  The inner loop: five thresholds drawn from the distinct values of one feature.
  Its state is \<open>(bestGain, bestSplit)\<close>; draw \<open>i\<close> reads the random source at \<open>k + i\<close>.
\<close>

definition try_threshold ::
  "rng \<Rightarrow> nat \<Rightarrow> sample list \<Rightarrow> nat \<Rightarrow> real option list \<Rightarrow> nat \<Rightarrow> real \<times> split option
     \<Rightarrow> real \<times> split option" where
  "try_threshold rng k samples featureIndex uniqueValues i best =
     (let threshold = uniqueValues ! random_index rng (k + i) (length uniqueValues);
          gain = calculateInformationGain samples featureIndex threshold
      in if gain > fst best
         then (gain, Some \<lparr> sp_featureIndex = featureIndex, sp_threshold = threshold,
                             sp_gain = gain \<rparr>)
         else best)"

text \<open>
  The \<open>while\<close> loop draws feature indices until enough distinct ones were tried. A
  random source that keeps repeating an index keeps the loop running: the result
  \<open>None\<close> is the run that never returns. The state is the set of tried features,
  the best gain and split so far, and the counter of the random source.
\<close>

partial_function (option) findBestSplit_loop ::
  "rng \<Rightarrow> sample list \<Rightarrow> nat \<Rightarrow> nat \<Rightarrow> nat list \<times> (real \<times> split option) \<times> nat
     \<Rightarrow> (split option \<times> nat) option" where
  "findBestSplit_loop rng samples numFeatures numFeaturesToTry st =
     (case st of (triedFeatures, best, k) \<Rightarrow>
        if length triedFeatures < numFeaturesToTry then
          (let featureIndex = random_index rng k numFeatures
           in if featureIndex \<in> set triedFeatures
              then findBestSplit_loop rng samples numFeatures numFeaturesToTry
                     (triedFeatures, best, k + 1)
              else
                (let uniqueValues = js_unique (map (\<lambda>s. js_nth (fst s) featureIndex) samples)
                 in if length uniqueValues \<le> 1
                    then findBestSplit_loop rng samples numFeatures numFeaturesToTry
                           (triedFeatures @ [featureIndex], best, k + 1)
                    else findBestSplit_loop rng samples numFeatures numFeaturesToTry
                           (triedFeatures @ [featureIndex],
                            fold (try_threshold rng (k + 1) samples featureIndex uniqueValues)
                                 [0..<5] best,
                            k + 6)))
        else Some (snd best, k))"

text \<open>
  \<open>Math.floor(Math.sqrt(n))\<close> for a natural number \<open>n\<close>: the largest \<open>m\<close> with
  \<open>m * m \<le> n\<close>, found by search so that it can be evaluated.
\<close>

definition floor_sqrt :: "nat \<Rightarrow> nat" where
  "floor_sqrt n = Max (set (filter (\<lambda>m. m * m \<le> n) [0..<Suc n]))"

definition findBestSplit :: "rng \<Rightarrow> nat \<Rightarrow> sample list \<Rightarrow> (split option \<times> nat) option" where
  "findBestSplit rng k samples =
     (if length samples = 0 then Some (None, k)
      else
        (let numFeatures = length (fst (hd samples));
             numFeaturesToTry = max 1 (floor_sqrt numFeatures)
         in findBestSplit_loop rng samples numFeatures numFeaturesToTry ([], (- 1, None), k)))"

subsection \<open>\<open>trainDecisionTree\<close>\<close>

text \<open>
  The result is \<open>None\<close> when \<open>findBestSplit\<close> never returns, \<open>Some (Inl e)\<close> when the
  source throws \<open>e\<close>, and otherwise the tree with the counter of the random source
  after the call. The object literal of an inner node evaluates \<open>left\<close> before
  \<open>right\<close>.
\<close>

function trainDecisionTree ::
  "rng \<Rightarrow> nat \<Rightarrow> sample list \<Rightarrow> nat \<Rightarrow> nat \<Rightarrow> (error + tree \<times> nat) option" where
  "trainDecisionTree rng k samples depth maxDepth =
     (if length samples = 0 \<or> depth \<ge> maxDepth then
        (case createLeafNode (map snd samples) of
           Inl e \<Rightarrow> Some (Inl e)
         | Inr leaf \<Rightarrow> Some (Inr (leaf, k)))
      else
        (let uniqueLabels = js_unique (map snd samples)
         in if length uniqueLabels = 1
            then Some (Inr (Leaf (hd uniqueLabels) (length samples) None, k))
            else
              (case findBestSplit rng k samples of
                 None \<Rightarrow> None
               | Some (None, k1) \<Rightarrow>
                   (case createLeafNode (map snd samples) of
                      Inl e \<Rightarrow> Some (Inl e)
                    | Inr leaf \<Rightarrow> Some (Inr (leaf, k1)))
               | Some (Some bestSplit, k1) \<Rightarrow>
                   (let goLeft = goes_left (sp_featureIndex bestSplit) (sp_threshold bestSplit);
                        leftSamples = filter goLeft samples;
                        rightSamples = filter (\<lambda>s. \<not> goLeft s) samples
                    in case trainDecisionTree rng k1 leftSamples (depth + 1) maxDepth of
                         None \<Rightarrow> None
                       | Some (Inl e) \<Rightarrow> Some (Inl e)
                       | Some (Inr (l, k2)) \<Rightarrow>
                           (case trainDecisionTree rng k2 rightSamples (depth + 1) maxDepth of
                              None \<Rightarrow> None
                            | Some (Inl e) \<Rightarrow> Some (Inl e)
                            | Some (Inr (r, k3)) \<Rightarrow>
                                Some (Inr (Node (sp_featureIndex bestSplit)
                                                (sp_threshold bestSplit) l r, k3)))))))"
  by pat_completeness auto
termination
  by (relation "measure (\<lambda>(rng, k, samples, depth, maxDepth). maxDepth - depth)") auto

declare trainDecisionTree.simps [simp del]

fun traverseTree :: "real list \<Rightarrow> tree \<Rightarrow> nat" where
  "traverseTree features (Leaf v c d) = v"
| "traverseTree features (Node featureIndex threshold l r) =
     (if js_le (js_nth features featureIndex) threshold
      then traverseTree features l
      else traverseTree features r)"

text \<open>The values at the leaves of a tree.\<close>

fun leaf_values :: "tree \<Rightarrow> nat set" where
  "leaf_values (Leaf v c d) = {v}"
| "leaf_values (Node featureIndex threshold l r) = leaf_values l \<union> leaf_values r"

section \<open>The forest: voting, training, prediction\<close>

text \<open>
  \<open>predictInstance\<close> reduces over the keys of \<open>votes\<close>, which are strings. The
  reducer returns \<open>parseInt\<close> of a key, a number; but with a single key \<open>reduce\<close>
  never calls the reducer and returns that key itself, a string.
\<close>

datatype js_class = Num nat | Str nat

definition class_index :: "js_class \<Rightarrow> nat" where
  "class_index c = (case c of Num n \<Rightarrow> n | Str n \<Rightarrow> n)"

definition tally :: "real list \<Rightarrow> tree list \<Rightarrow> counter" where
  "tally features trees = fold (\<lambda>tree votes. obj_incr (traverseTree features tree) votes) trees []"

definition predictInstance :: "real list \<Rightarrow> tree list \<Rightarrow> error + js_class" where
  "predictInstance features trees =
     (let votes = tally features trees
      in case obj_keys votes of
           [] \<Rightarrow> Inl (TypeError ''Reduce of empty array with no initial value'')
         | [key] \<Rightarrow> Inr (Str key)
         | key # keys \<Rightarrow>
             Inr (Num (foldl (\<lambda>a b. if obj_get votes a > obj_get votes b then a else b)
                             key keys)))"

text \<open>The number of trees that classify a feature vector as class \<open>k\<close>.\<close>

definition votes_for :: "real list \<Rightarrow> tree list \<Rightarrow> nat \<Rightarrow> nat" where
  "votes_for fv ts k = length (filter (\<lambda>t. traverseTree fv t = k) ts)"

text \<open>\<open>prediction === label\<close>: a string is never strictly equal to a number.\<close>

definition strict_eq :: "js_class \<Rightarrow> nat \<Rightarrow> bool" where
  "strict_eq prediction label = (case prediction of Num n \<Rightarrow> n = label | Str n \<Rightarrow> False)"

fun count_correct :: "sample list \<Rightarrow> tree list \<Rightarrow> error + nat" where
  "count_correct [] trees = Inr 0"
| "count_correct ((features, label) # rest) trees =
     (case predictInstance features trees of
        Inl e \<Rightarrow> Inl e
      | Inr prediction \<Rightarrow>
          (case count_correct rest trees of
             Inl e \<Rightarrow> Inl e
           | Inr correct \<Rightarrow> Inr ((if strict_eq prediction label then 1 else 0) + correct)))"

definition calculateAccuracy :: "sample list \<Rightarrow> tree list \<Rightarrow> error + real" where
  "calculateAccuracy samples trees =
     (case count_correct samples trees of
        Inl e \<Rightarrow> Inl e
      | Inr correct \<Rightarrow> Inr (real correct / real (length samples)))"

text \<open>
  The bootstrap sample of one tree: \<open>numSamples\<close> draws with replacement, draw \<open>j\<close>
  reading the random source at \<open>k + j\<close>.
\<close>

definition bootstrap :: "rng \<Rightarrow> nat \<Rightarrow> sample list \<Rightarrow> sample list" where
  "bootstrap rng k samples =
     map (\<lambda>j. samples ! random_index rng (k + j) (length samples)) [0..<length samples]"

fun grow_trees :: "rng \<Rightarrow> nat \<Rightarrow> sample list \<Rightarrow> nat \<Rightarrow> (error + tree list \<times> nat) option" where
  "grow_trees rng k samples 0 = Some (Inr ([], k))"
| "grow_trees rng k samples (Suc n) =
     (case trainDecisionTree rng (k + length samples) (bootstrap rng k samples) 0 10 of
        None \<Rightarrow> None
      | Some (Inl e) \<Rightarrow> Some (Inl e)
      | Some (Inr (tree, k1)) \<Rightarrow>
          (case grow_trees rng k1 samples n of
             None \<Rightarrow> None
           | Some (Inl e) \<Rightarrow> Some (Inl e)
           | Some (Inr (trees, k2)) \<Rightarrow> Some (Inr (tree # trees, k2))))"

record forest =
  trees :: "tree list"
  forest_accuracy :: real

definition trainRandomForest ::
  "rng \<Rightarrow> nat \<Rightarrow> nat \<Rightarrow> sample list \<Rightarrow> (error + forest \<times> nat) option" where
  "trainRandomForest rng k numTrees samples =
     (case grow_trees rng k samples numTrees of
        None \<Rightarrow> None
      | Some (Inl e) \<Rightarrow> Some (Inl e)
      | Some (Inr (ts, k1)) \<Rightarrow>
          (case calculateAccuracy samples ts of
             Inl e \<Rightarrow> Some (Inl e)
           | Inr acc \<Rightarrow> Some (Inr (\<lparr> trees = ts, forest_accuracy = acc \<rparr>, k1))))"

subsection \<open>The trainer object\<close>

record trainer =
  model :: "forest option"
  isTrained :: bool
  features :: "real list list"
  labels :: "nat list"
  numTrees :: nat
  classNames :: "string list"

definition RandomForestTrainer :: trainer where
  "RandomForestTrainer =
     \<lparr> model = None, isTrained = False, features = [], labels = [], numTrees = 50,
       classNames = [] \<rparr>"

text \<open>
  A dataset is the list of its (image, label) pairs; \<open>None\<close> is a dataset that is
  null or has no \<open>images\<close>.
\<close>

type_synonym dataset = "(string \<times> nat) list"

text \<open>\<open>Math.max(...labels) + 1\<close> as a length: \<open>-Infinity\<close> for no labels counts as 0.\<close>

definition num_classes :: "nat list \<Rightarrow> nat" where
  "num_classes ls = (if ls = [] then 0 else Max (set ls) + 1)"

text \<open>\<open>String(i)\<close> for a natural number, for the names \<open>Class i\<close>.\<close>

fun string_of_nat :: "nat \<Rightarrow> string" where
  "string_of_nat n =
     (if n < 10 then [''0123456789'' ! n]
      else string_of_nat (n div 10) @ [''0123456789'' ! (n mod 10)])"

record train_result =
  tr_accuracy :: real
  tr_trees :: nat

text \<open>
  \<open>train\<close> returns what the caller sees and the trainer afterwards. The fields are
  assigned as the source assigns them, so a run that throws on the way keeps the
  assignments made before.
\<close>

definition train ::
  "decoder \<Rightarrow> rng \<Rightarrow> nat \<Rightarrow> trainer \<Rightarrow> dataset option
     \<Rightarrow> ((error + train_result) \<times> trainer \<times> nat) option" where
  "train decode rng k this dataset =
     (case dataset of
        None \<Rightarrow> Some (Inl (Error ''No training data available''), this, k)
      | Some ds \<Rightarrow>
          if length ds = 0 then Some (Inl (Error ''No training data available''), this, k)
          else
            (let numClasses = num_classes (map snd ds);
                 this1 = this\<lparr> classNames :=
                           map (\<lambda>i. ''Class '' @ string_of_nat i) [0..<numClasses] \<rparr>;
                 this2 = this1\<lparr> features := extractFeatures decode (map fst ds),
                                labels := map snd ds \<rparr>
             in case trainRandomForest rng k (numTrees this2)
                       (zip (features this2) (labels this2)) of
                  None \<Rightarrow> None
                | Some (Inl e) \<Rightarrow> Some (Inl e, this2, k)
                | Some (Inr (m, k1)) \<Rightarrow>
                    Some (Inr \<lparr> tr_accuracy = forest_accuracy m, tr_trees = numTrees this2 \<rparr>,
                          this2\<lparr> model := Some m, isTrained := True \<rparr>, k1)))"

text \<open>
  \<open>predict\<close>: the part after the features are extracted is \<open>predict_features\<close>. A
  trainer with \<open>isTrained\<close> set always holds a model; the model of the source would
  raise a \<open>TypeError\<close> on reading \<open>trees\<close> of \<open>null\<close>.
\<close>

definition predict_features :: "trainer \<Rightarrow> real list \<Rightarrow> error + real list" where
  "predict_features this fv =
     (case model this of
        None \<Rightarrow> Inl (TypeError ''Cannot read properties of null'')
      | Some m \<Rightarrow>
          (let votes = tally fv (trees m);
               totalTrees = length (trees m);
               numClasses = num_classes (labels this)
           in Inr (map (\<lambda>i. real (obj_get votes i) / real totalTrees) [0..<numClasses])))"

definition predict :: "decoder \<Rightarrow> trainer \<Rightarrow> string \<Rightarrow> error + real list" where
  "predict decode this imageDataUrl =
     (if \<not> isTrained this then Inl (Error ''Model not trained yet'')
      else
        (case extractImageFeatures decode imageDataUrl of
           Inl e \<Rightarrow> Inl e
         | Inr fv \<Rightarrow> predict_features this fv))"

text \<open>
  A trainer that holds a trained forest \<open>m\<close>: the flag is set, the forest has at
  least one tree, there are training labels, and every leaf of every tree carries a
  class below \<open>numClasses\<close>, the largest training label plus one.
\<close>

definition trained_forest :: "trainer \<Rightarrow> forest \<Rightarrow> bool" where
  "trained_forest this m =
     (model this = Some m \<and> isTrained this \<and> trees m \<noteq> [] \<and> labels this \<noteq> [] \<and>
      (\<forall>t\<in>set (trees m). \<forall>v\<in>leaf_values t. v < num_classes (labels this)))"

section \<open>\<open>ModelManager\<close>\<close>

text \<open>
  An object with string keys enumerates them in insertion order; assigning to a key
  that exists keeps its place. \<open>obj_set k v\<close> is \<open>o[k] = v\<close>.
\<close>

fun obj_set :: "string \<Rightarrow> 'v \<Rightarrow> (string \<times> 'v) list \<Rightarrow> (string \<times> 'v) list" where
  "obj_set k v [] = [(k, v)]"
| "obj_set k v ((k', v') # rest) =
     (if k = k' then (k, v) # rest else (k', v') # obj_set k v rest)"

text \<open>
  What \<open>saveModel()\<close> of a trainer returns: a fresh object literal on every call, to
  which the manager adds \<open>id\<close> (\<open>info_id\<close>). \<open>numTrees\<close> is present for the random forest only.
\<close>

record model_info =
  info_type :: string
  timestamp :: string
  info_accuracy :: real
  info_numTrees :: "nat option"
  info_id :: "nat option"

text \<open>
  What the promise of a \<open>predict\<close> call does. It resolves with a value (\<open>None\<close> is
  a value that is not an array) after some time, or it rejects with a reason, or
  it never settles: \<open>CNNTrainer.loadImage\<close> sets \<open>onload\<close> but no \<open>onerror\<close>, so for
  an image that does not decode its promise, and with it the promise of
  \<open>CNNTrainer.predict\<close>, stays pending for ever. A reason is an \<open>Error\<close> object with
  its message, or \<open>null\<close> or \<open>undefined\<close>, or some other value, which has no
  \<open>message\<close>.
\<close>

datatype reason = Thrown error | Nullish | Other

datatype reply = Resolved "real list option" real | Rejected reason | Pending

text \<open>
  A model behind the shared contract, as the manager and the predictor use it:
  the flag \<open>isTrained\<close>, \<open>predict\<close> (what the promise of a call does) and
  \<open>saveModel\<close> at a given clock reading. \<open>dispose\<close> changes nothing that is modelled.
\<close>

record backend =
  be_isTrained :: bool
  be_predict :: "string \<Rightarrow> reply"
  be_saveModel :: "string \<Rightarrow> error + model_info"

type_synonym evaluation = "(string \<times> real) list"

record model_manager =
  models :: "(string \<times> backend option) list"
  evaluationResults :: "(string \<times> evaluation) list"
  savedModels :: "model_info list"
  isTraining :: bool

definition ModelManager :: model_manager where
  "ModelManager =
     \<lparr> models = [(''logisticRegression'', None), (''randomForest'', None), (''cnn'', None)],
       evaluationResults = [],
       savedModels = [],
       isTraining = False \<rparr>"

definition valid_type :: "string \<Rightarrow> bool" where
  "valid_type t = (t \<in> set [''logisticRegression'', ''randomForest'', ''cnn''])"

definition invalid_type_error :: "string \<Rightarrow> error" where
  "invalid_type_error t = Error (''Invalid model type: '' @ t)"

definition setModel :: "model_manager \<Rightarrow> string \<Rightarrow> backend option \<Rightarrow> error + model_manager" where
  "setModel this t m =
     (if \<not> valid_type t then Inl (invalid_type_error t)
      else Inr (this\<lparr> models := obj_set t m (models this) \<rparr>))"

definition getModel :: "model_manager \<Rightarrow> string \<Rightarrow> error + backend option" where
  "getModel this t =
     (if \<not> valid_type t then Inl (invalid_type_error t)
      else Inr (case map_of (models this) t of None \<Rightarrow> None | Some m \<Rightarrow> m))"

text \<open>The model of a type when \<open>isModelTrained\<close> holds for it.\<close>

definition trained_model :: "model_manager \<Rightarrow> string \<Rightarrow> backend option" where
  "trained_model this t =
     (if \<not> valid_type t then None
      else (case map_of (models this) t of
              Some (Some b) \<Rightarrow> if be_isTrained b then Some b else None
            | _ \<Rightarrow> None))"

definition isModelTrained :: "model_manager \<Rightarrow> string \<Rightarrow> bool" where
  "isModelTrained this t = (trained_model this t \<noteq> None)"

definition setEvaluationResults ::
  "model_manager \<Rightarrow> string \<Rightarrow> evaluation \<Rightarrow> error + model_manager" where
  "setEvaluationResults this t results =
     (if \<not> valid_type t then Inl (invalid_type_error t)
      else Inr (this\<lparr> evaluationResults := obj_set t results (evaluationResults this) \<rparr>))"

text \<open>
  \<open>saveModel\<close> at the clock reading \<open>now\<close>: the descriptor it returns, or the error,
  and the manager afterwards.
\<close>

definition saveModel ::
  "model_manager \<Rightarrow> string \<Rightarrow> string \<Rightarrow> (error + model_info) \<times> model_manager" where
  "saveModel this t now =
     (case trained_model this t of
        None \<Rightarrow> (Inl (Error (''Model '' @ t @ '' is not trained'')), this)
      | Some b \<Rightarrow>
          (case be_saveModel b now of
             Inl e \<Rightarrow> (Inl e, this)
           | Inr modelInfo \<Rightarrow>
               (let modelInfo' = modelInfo\<lparr> info_id := Some (length (savedModels this)) \<rparr>
                in (Inr modelInfo', this\<lparr> savedModels := savedModels this @ [modelInfo'] \<rparr>))))"

definition setTrainingStatus :: "model_manager \<Rightarrow> bool \<Rightarrow> model_manager" where
  "setTrainingStatus this training = this\<lparr> isTraining := training \<rparr>"

definition reset :: "model_manager \<Rightarrow> model_manager" where
  "reset this =
     this\<lparr> models := [(''logisticRegression'', None), (''randomForest'', None), (''cnn'', None)],
           evaluationResults := [],
           isTraining := False \<rparr>"

text \<open>
  The calls that can change a manager, and the manager after a call; a call that
  throws leaves it as it was.
\<close>

datatype manager_call =
    SetModel string "backend option"
  | SetEvaluationResults string evaluation
  | SaveModel string string
  | SetTrainingStatus bool
  | Reset

fun perform :: "manager_call \<Rightarrow> model_manager \<Rightarrow> model_manager" where
  "perform (SetModel t m) this = (case setModel this t m of Inl e \<Rightarrow> this | Inr this' \<Rightarrow> this')"
| "perform (SetEvaluationResults t r) this =
     (case setEvaluationResults this t r of Inl e \<Rightarrow> this | Inr this' \<Rightarrow> this')"
| "perform (SaveModel t now) this = snd (saveModel this t now)"
| "perform (SetTrainingStatus b) this = setTrainingStatus this b"
| "perform Reset this = reset this"

text \<open>The ids of the ledger are 0, 1, 2, ... in the order of the entries.\<close>

definition ids_in_order :: "model_manager \<Rightarrow> bool" where
  "ids_in_order this =
     (map info_id (savedModels this) = map Some [0..<length (savedModels this)])"

text \<open>\<open>RandomForestTrainer.saveModel\<close>, and the trainer behind the shared contract.\<close>

definition trainer_saveModel :: "trainer \<Rightarrow> string \<Rightarrow> error + model_info" where
  "trainer_saveModel this now =
     (if \<not> isTrained this then Inl (Error ''Model not trained yet'')
      else (case model this of
              None \<Rightarrow> Inl (TypeError ''Cannot read properties of null'')
            | Some m \<Rightarrow>
                Inr \<lparr> info_type = ''random-forest'', timestamp = now,
                      info_accuracy = forest_accuracy m,
                      info_numTrees = Some (numTrees this), info_id = None \<rparr>))"

definition trainer_backend :: "decoder \<Rightarrow> (string \<Rightarrow> real) \<Rightarrow> trainer \<Rightarrow> backend" where
  "trainer_backend decode elapsed this =
     \<lparr> be_isTrained = isTrained this,
       be_predict = (\<lambda>url. case predict decode this url of
                              Inl e \<Rightarrow> Rejected (Thrown e)
                            | Inr probabilities \<Rightarrow> Resolved (Some probabilities) (elapsed url)),
       be_saveModel = trainer_saveModel this \<rparr>"

section \<open>\<open>Predictor\<close>\<close>

record prediction =
  className :: string
  probability :: real

text \<open>One entry of the result of \<open>predictImage\<close>; \<open>error\<close> is absent unless set.\<close>

record model_prediction =
  predictions :: "prediction list"
  inferenceTime :: real
  error :: "string option"

type_synonym image_predictions = "(string \<times> model_prediction) list"

definition message :: "error \<Rightarrow> string" where
  "message e = (case e of Error m \<Rightarrow> m | TypeError m \<Rightarrow> m)"

text \<open>
  \<open>formatPredictions\<close>: \<open>classNames[index] || `Class ${index}`\<close> falls back for a
  missing name and for the empty name; \<open>sort\<close> is stable, so equal probabilities
  keep their order.
\<close>

definition formatPredictions :: "real list option \<Rightarrow> string list \<Rightarrow> prediction list" where
  "formatPredictions probabilities names =
     (case probabilities of
        None \<Rightarrow> [\<lparr> className = ''Invalid prediction'', probability = 0 \<rparr>]
      | Some ps \<Rightarrow>
          take 5
            (sort_key (\<lambda>e. - probability e)
               (map (\<lambda>(index, p).
                       \<lparr> className = (case js_nth names index of
                                         None \<Rightarrow> ''Class '' @ string_of_nat index
                                       | Some name \<Rightarrow>
                                           if name = [] then ''Class '' @ string_of_nat index
                                           else name),
                         probability = p \<rparr>)
                    (zip [0..<length ps] ps))))"

record predictor =
  modelManager :: model_manager
  datasetManager :: "string list"
  isPredicting :: bool

text \<open>
  The constructor. Of the dataset manager the predictor reads the class names only,
  so \<open>datasetManager\<close> is the list \<open>classes.map(c => c.name)\<close>.
\<close>

definition Predictor :: "model_manager \<Rightarrow> string list \<Rightarrow> predictor" where
  "Predictor mm dm = \<lparr> modelManager = mm, datasetManager = dm, isPredicting = False \<rparr>"

definition in_progress :: error where
  "in_progress = Error ''Prediction already in progress''"

definition not_trained_entry :: model_prediction where
  "not_trained_entry =
     \<lparr> predictions = [\<lparr> className = ''Model not trained'', probability = 0 \<rparr>],
       inferenceTime = 0, error = None \<rparr>"

text \<open>
  The entry of the \<open>catch\<close> block; \<open>message\<close> is \<open>error.message\<close>, absent for a
  reason without one.
\<close>

definition error_entry :: "string option \<Rightarrow> model_prediction" where
  "error_entry msg =
     \<lparr> predictions = [\<lparr> className = ''Prediction Error'', probability = 0 \<rparr>],
       inferenceTime = 0, error = msg \<rparr>"

text \<open>
  What the loop does with a trained model once the promise of its \<open>predict\<close> has
  settled: \<open>None\<close> while the promise is pending, the entry for the model, or the
  \<open>TypeError\<close> that reading \<open>error.message\<close> raises in the \<open>catch\<close> block when the
  reason is \<open>null\<close> or \<open>undefined\<close>.
\<close>

definition settled_entry ::
  "string list \<Rightarrow> string \<Rightarrow> backend \<Rightarrow> (error + model_prediction) option" where
  "settled_entry names imageDataUrl b =
     (case be_predict b imageDataUrl of
        Pending \<Rightarrow> None
      | Resolved probabilities elapsed \<Rightarrow>
          Some (Inr \<lparr> predictions = formatPredictions probabilities names,
                      inferenceTime = elapsed, error = None \<rparr>)
      | Rejected r \<Rightarrow>
          (case r of
             Thrown e \<Rightarrow> Some (Inr (error_entry (Some (message e))))
           | Other \<Rightarrow> Some (Inr (error_entry None))
           | Nullish \<Rightarrow> Some (Inl (TypeError ''Cannot read properties of null''))))"


text \<open>
  \<open>predictImage\<close> is an async function: it runs until it reaches an \<open>await\<close>, and
  continues when the awaited promise has settled. The only \<open>await\<close> is the one on
  \<open>model.predict\<close> of a trained model. A suspended call holds the predictions made
  so far, the type and model it waits for, and the entries of \<open>Object.entries\<close> that
  are left.

  \<open>advance\<close> runs the loop from an entry on, up to the next \<open>await\<close> (\<open>Inl\<close>, the
  suspended call) or to the end of the loop (\<open>Inr\<close>, the predictions).
\<close>

type_synonym suspended =
  "image_predictions \<times> string \<times> backend \<times> (string \<times> backend option) list"

fun advance :: "(string \<times> backend option) list \<Rightarrow> image_predictions
                  \<Rightarrow> suspended + image_predictions" where
  "advance [] acc = Inr acc"
| "advance ((t, None) # rest) acc = advance rest (obj_set t not_trained_entry acc)"
| "advance ((t, Some b) # rest) acc =
     (if be_isTrained b then Inl (acc, t, b, rest)
      else advance rest (obj_set t not_trained_entry acc))"

text \<open>
  The start of a call, up to its first \<open>await\<close>. The argument is \<open>None\<close> for a value
  that is not a string. The guard throws before the \<open>try\<close>, so it leaves the flag
  as it is; an invalid argument throws inside, so \<open>finally\<close> clears the flag. The
  result is the predictor afterwards and either how the call has settled already or
  the suspended call.
\<close>

datatype outcome = Fulfilled image_predictions | Failed error

definition enter ::
  "predictor \<Rightarrow> string option \<Rightarrow> predictor \<times> (outcome + string \<times> string list \<times> suspended)" where
  "enter this imageDataUrl =
     (if isPredicting this then (this, Inl (Failed in_progress))
      else
        (let this1 = this\<lparr> isPredicting := True \<rparr>;
             names = datasetManager this1
         in case imageDataUrl of
              None \<Rightarrow> (this1\<lparr> isPredicting := False \<rparr>, Inl (Failed (Error ''Invalid image data URL'')))
            | Some url \<Rightarrow>
                if url = []
                then (this1\<lparr> isPredicting := False \<rparr>,
                      Inl (Failed (Error ''Invalid image data URL'')))
                else (case advance (models (modelManager this1)) [] of
                        Inr acc \<Rightarrow> (this1\<lparr> isPredicting := False \<rparr>, Inl (Fulfilled acc))
                      | Inl fr \<Rightarrow> (this1, Inr (url, names, fr)))))"

text \<open>
  A suspended call gets its turn. While the awaited promise is pending nothing
  runs and the call stays as it is. Once the promise has settled the call makes
  the entry of the awaited model and goes on with the loop: it is suspended again
  at the next trained model, or it finishes. A \<open>TypeError\<close> from the \<open>catch\<close> block
  leaves the loop, and the outer \<open>catch\<close> throws it again. On both ways out
  \<open>finally\<close> clears the flag.
\<close>

definition continue ::
  "predictor \<Rightarrow> string \<times> string list \<times> suspended
     \<Rightarrow> predictor \<times> (outcome + string \<times> string list \<times> suspended)" where
  "continue this call =
     (case call of (url, names, acc, t, b, rest) \<Rightarrow>
        (case settled_entry names url b of
           None \<Rightarrow> (this, Inr call)
         | Some (Inl e) \<Rightarrow> (this\<lparr> isPredicting := False \<rparr>, Inl (Failed e))
         | Some (Inr entry) \<Rightarrow>
             (case advance rest (obj_set t entry acc) of
                Inr res \<Rightarrow> (this\<lparr> isPredicting := False \<rparr>, Inl (Fulfilled res))
              | Inl fr \<Rightarrow> (this, Inr (url, names, fr)))))"

subsection \<open>One call run to its end\<close>




subsection \<open>Calls that overlap\<close>

text \<open>
  JavaScript runs one piece of code at a time, and a call gives way to other code
  only at an \<open>await\<close>. So the runs of one predictor are the sequences of these
  events: a caller invokes \<open>predictImage\<close> (which runs up to the first \<open>await\<close>),
  the \<open>i\<close>-th suspended call gets its turn (which continues that call up to its
  next \<open>await\<close> or to its end, if the promise it awaits has settled), or someone
  calls the model manager.
  A step gives the system afterwards and the outcome of the call that settled in
  this step, if one did.
\<close>

record system =
  the_predictor :: predictor
  suspended_calls :: "(string \<times> string list \<times> suspended) list"

datatype event = Invoke "string option" | Settle nat | Manager manager_call

definition remove_nth :: "nat \<Rightarrow> 'a list \<Rightarrow> 'a list" where
  "remove_nth i xs = take i xs @ drop (Suc i) xs"

fun step :: "event \<Rightarrow> system \<Rightarrow> system \<times> outcome option" where
  "step (Invoke imageDataUrl) s =
     (case enter (the_predictor s) imageDataUrl of
        (p, Inl out) \<Rightarrow> (s\<lparr> the_predictor := p \<rparr>, Some out)
      | (p, Inr call) \<Rightarrow>
          (s\<lparr> the_predictor := p, suspended_calls := suspended_calls s @ [call] \<rparr>, None))"
| "step (Settle i) s =
     (case js_nth (suspended_calls s) i of
        None \<Rightarrow> (s, None)
      | Some call \<Rightarrow>
          (case continue (the_predictor s) call of
             (p, Inl out) \<Rightarrow>
               (s\<lparr> the_predictor := p,
                   suspended_calls := remove_nth i (suspended_calls s) \<rparr>, Some out)
           | (p, Inr call') \<Rightarrow>
               (s\<lparr> the_predictor := p,
                   suspended_calls := (suspended_calls s)[i := call'] \<rparr>, None)))"
| "step (Manager c) s =
     (s\<lparr> the_predictor :=
           (the_predictor s)\<lparr> modelManager := perform c (modelManager (the_predictor s)) \<rparr> \<rparr>,
      None)"

declare step.simps [simp del]

definition run :: "event list \<Rightarrow> system \<Rightarrow> system" where
  "run evs s = fold (\<lambda>ev s. fst (step ev s)) evs s"

definition start :: "model_manager \<Rightarrow> string list \<Rightarrow> system" where
  "start mm dm = \<lparr> the_predictor = Predictor mm dm, suspended_calls = [] \<rparr>"

text \<open>
  No call is suspended unless the flag is set, and at most one call is suspended.
\<close>

definition guarded :: "system \<Rightarrow> bool" where
  "guarded s =
     ((isPredicting (the_predictor s) \<longleftrightarrow> suspended_calls s \<noteq> []) \<and>
      length (suspended_calls s) \<le> 1)"

section \<open>Example inputs\<close>

text \<open>
  Two samples with one feature and different labels, and the random source whose
  every draw is 1/2: it picks the only feature and, of the two values of the
  feature, the larger one as the threshold.
\<close>

definition two_samples :: "sample list" where
  "two_samples = [([0], 0), ([1], 1)]"

definition half :: rng where
  "half = (\<lambda>k. 1 / 2)"

text \<open>
  Two trained models: one whose \<open>predict\<close> resolves, one whose \<open>predict\<close> rejects;
  and a manager that holds the second as its random forest and the first as its
  CNN.
\<close>

definition resolving_model :: backend where
  "resolving_model =
     \<lparr> be_isTrained = True,
       be_predict = (\<lambda>url. Resolved (Some [1 / 4, 3 / 4]) 5),
       be_saveModel = (\<lambda>now. Inr \<lparr> info_type = ''cnn'', timestamp = now, info_accuracy = 4 / 5,
                                    info_numTrees = None, info_id = None \<rparr>) \<rparr>"

definition rejecting_model :: backend where
  "rejecting_model =
     \<lparr> be_isTrained = True,
       be_predict = (\<lambda>url. Rejected (Thrown (Error ''Failed to load image''))),
       be_saveModel = (\<lambda>now. Inl (Error ''Model not trained yet'')) \<rparr>"

text \<open>
  A trained model whose \<open>predict\<close> never settles, as that of the CNN for an image
  that does not decode, and one whose \<open>predict\<close> rejects with \<open>null\<close>; each as the
  CNN of a manager.
\<close>

definition stalling_model :: backend where
  "stalling_model =
     \<lparr> be_isTrained = True,
       be_predict = (\<lambda>url. Pending),
       be_saveModel = (\<lambda>now. Inr \<lparr> info_type = ''cnn'', timestamp = now, info_accuracy = 4 / 5,
                                    info_numTrees = None, info_id = None \<rparr>) \<rparr>"

definition null_rejecting_model :: backend where
  "null_rejecting_model =
     \<lparr> be_isTrained = True,
       be_predict = (\<lambda>url. Rejected Nullish),
       be_saveModel = (\<lambda>now. Inl (Error ''Model not trained yet'')) \<rparr>"

definition stalled_manager :: model_manager where
  "stalled_manager = fold perform [SetModel ''cnn'' (Some stalling_model)] ModelManager"

definition null_manager :: model_manager where
  "null_manager = fold perform [SetModel ''cnn'' (Some null_rejecting_model)] ModelManager"

definition example_manager :: model_manager where
  "example_manager =
     fold perform [SetModel ''randomForest'' (Some rejecting_model),
                   SetModel ''cnn'' (Some resolving_model)] ModelManager"

section \<open>Properties of \<open>calculateMetrics\<close>\<close>

text \<open>
  C1. For the confusion matrix \<open>[[5,0],[1,4]]\<close> the claim expects global accuracy
  9/10, class-0 precision 5/6 and class-0 recall 1. The code gives that precision
  and that recall, but its accuracy is 9/11: the 10 samples hold one error, which
  \<open>totalPredictions\<close> counts twice, once as a false positive of class 0 and once as
  a false negative of class 1.
\<close>

theorem calculateMetrics_scenario:
  "calculateMetrics (Some [[5, 0], [1, 4]]) =
     Inr \<lparr> accuracy = 9 / 11, precision = [5 / 6, 1], recall = [1, 4 / 5],
           f1Score = [10 / 11, 8 / 9], support = [5, 5] \<rparr>"
  by (simp add: calculateMetrics_def outer_step_def inner_loop_def inner_step_def
                initial_loop_state_def cell_def upt_conv_Cons)

text \<open>The two loops compute sums over the classes.\<close>

lemma inner_fold:
  "fold (inner_step m i) [0..<k] (a, b) =
     (a + (\<Sum>j\<in>{..<k} - {i}. cell m j i), b + (\<Sum>j\<in>{..<k} - {i}. cell m i j))"
proof (induction k)
  case 0
  show ?case by simp
next
  case (Suc k)
  have split: "{..<Suc k} - {i} = (if i = k then {..<k} - {i} else insert k ({..<k} - {i}))"
    by auto
  have "fold (inner_step m i) [0..<Suc k] (a, b) =
          inner_step m i k (fold (inner_step m i) [0..<k] (a, b))"
    by simp
  also have "\<dots> = inner_step m i k
      (a + (\<Sum>j\<in>{..<k} - {i}. cell m j i), b + (\<Sum>j\<in>{..<k} - {i}. cell m i j))"
    by (simp only: Suc)
  also have "\<dots> = (a + (\<Sum>j\<in>{..<Suc k} - {i}. cell m j i),
                     b + (\<Sum>j\<in>{..<Suc k} - {i}. cell m i j))"
    by (simp add: inner_step_def split)
  finally show ?case .
qed

lemma inner_loop_sums:
  "inner_loop m i =
     ((\<Sum>j\<in>{..<length m} - {i}. cell m j i), (\<Sum>j\<in>{..<length m} - {i}. cell m i j))"
  by (simp add: inner_loop_def inner_fold)

lemma outer_fold_correct:
  "correctPredictions (fold (outer_step m) [0..<k] st) =
     correctPredictions st + (\<Sum>i<k. cell m i i)"
  by (induction k) (simp_all add: outer_step_def Let_def split: prod.splits)

lemma outer_fold_total:
  "totalPredictions (fold (outer_step m) [0..<k] st) =
     totalPredictions st +
       (\<Sum>i<k. cell m i i + (\<Sum>j\<in>{..<length m} - {i}. cell m j i)
                          + (\<Sum>j\<in>{..<length m} - {i}. cell m i j))"
  by (induction k) (simp_all add: outer_step_def Let_def inner_loop_sums split: prod.splits)

lemma cell_square:
  assumes "\<forall>row\<in>set m. length row = length m" "i < length m" "j < length m"
  shows "cell m i j = m ! i ! j"
  using assms by (simp add: cell_def)

lemma cell_nonneg:
  assumes "\<forall>row\<in>set m. \<forall>x\<in>set row. 0 \<le> x"
  shows "0 \<le> cell m i j"
proof (cases "i < length m \<and> j < length (m ! i)")
  case True
  then have "m ! i \<in> set m" and "m ! i ! j \<in> set (m ! i)"
    by simp_all
  with assms have "0 \<le> m ! i ! j"
    by blast
  with True show ?thesis
    by (simp add: cell_def)
next
  case False
  then show ?thesis
    by (auto simp: cell_def)
qed

text \<open>
  C2. For every square confusion matrix of non-negative integers, the accuracy
  that \<open>calculateMetrics\<close> returns is the sum of the diagonal divided by the sum
  over the classes \<open>i\<close> of \<open>TP i + FP i + FN i\<close>, where \<open>TP i\<close> is the diagonal cell,
  \<open>FP i\<close> the rest of column \<open>i\<close> and \<open>FN i\<close> the rest of row \<open>i\<close>; it is 0 when that
  denominator is 0.
\<close>

theorem calculateMetrics_accuracy:
  assumes sq: "\<forall>row\<in>set m. length row = length m"
      and nn: "\<forall>row\<in>set m. \<forall>x\<in>set row. 0 \<le> x"
  shows "\<exists>r. calculateMetrics (Some m) = Inr r \<and>
           accuracy r =
             (let n = length m;
                  TP = (\<lambda>i. m ! i ! i);
                  FP = (\<lambda>i. \<Sum>j\<in>{..<n} - {i}. m ! j ! i);
                  FN = (\<lambda>i. \<Sum>j\<in>{..<n} - {i}. m ! i ! j);
                  denominator = (\<Sum>i<n. TP i + FP i + FN i)
              in if denominator = 0 then 0
                 else real_of_int (\<Sum>i<n. TP i) / real_of_int denominator)"
proof -
  let ?n = "length m"
  let ?den = "\<Sum>i<?n. cell m i i + (\<Sum>j\<in>{..<?n} - {i}. cell m j i)
                                  + (\<Sum>j\<in>{..<?n} - {i}. cell m i j)"
  have tp: "(\<Sum>i<?n. cell m i i) = (\<Sum>i<?n. m ! i ! i)"
    by (rule sum.cong) (simp_all add: cell_square [OF sq])
  have fp: "(\<Sum>j\<in>{..<?n} - {i}. cell m j i) = (\<Sum>j\<in>{..<?n} - {i}. m ! j ! i)"
    if "i < ?n" for i
    by (rule sum.cong) (use that in \<open>simp_all add: cell_square [OF sq]\<close>)
  have fn: "(\<Sum>j\<in>{..<?n} - {i}. cell m i j) = (\<Sum>j\<in>{..<?n} - {i}. m ! i ! j)"
    if "i < ?n" for i
    by (rule sum.cong) (use that in \<open>simp_all add: cell_square [OF sq]\<close>)
  have den: "?den = (\<Sum>i<?n. m ! i ! i + (\<Sum>j\<in>{..<?n} - {i}. m ! j ! i)
                                        + (\<Sum>j\<in>{..<?n} - {i}. m ! i ! j))"
    by (rule sum.cong) (simp_all add: cell_square [OF sq] fp fn)
  have "0 \<le> ?den"
    by (intro sum_nonneg add_nonneg_nonneg cell_nonneg [OF nn])
  then have pos: "?den > 0 \<longleftrightarrow> ?den \<noteq> 0"
    by linarith
  have "totalPredictions (fold (outer_step m) [0..<?n] initial_loop_state) = ?den"
    by (simp add: outer_fold_total initial_loop_state_def)
  moreover have "correctPredictions (fold (outer_step m) [0..<?n] initial_loop_state)
                   = (\<Sum>i<?n. cell m i i)"
    by (simp add: outer_fold_correct initial_loop_state_def)
  ultimately show ?thesis
    using pos by (simp add: calculateMetrics_def Let_def tp den)
qed

theorem calculateMetrics_accuracy_witness:
  "\<exists>r. calculateMetrics (Some [[5, 0], [1, 4]]) = Inr r \<and> accuracy r = 9 / 11"
proof -
  have sq: "\<forall>row\<in>set [[5, 0], [1, 4::int]]. length row = length [[5, 0], [1, 4::int]]"
    by simp
  have nn: "\<forall>row\<in>set [[5, 0], [1, 4::int]]. \<forall>x\<in>set row. 0 \<le> x"
    by simp
  have len: "length [[5, 0], [1, 4::int]] = 2"
    by simp
  have sum2: "(\<Sum>i<2. f i) = f 0 + f 1" for f :: "nat \<Rightarrow> int"
    by (simp add: numeral_2_eq_2)
  have d0: "{..<2::nat} - {0} = {1}" and d1: "{..<2::nat} - {1} = {0}"
    by auto
  from calculateMetrics_accuracy [OF sq nn]
  show ?thesis
    unfolding Let_def len sum2 d0 d1 by simp
qed

section \<open>Properties of the voting\<close>

text \<open>The counting object: its keys stay in ascending order and its counts are right.\<close>

lemma keys_obj_incr: "set (map fst (obj_incr k obj)) = insert k (set (map fst obj))"
  by (induction k obj rule: obj_incr.induct) auto

lemma sorted_obj_incr:
  "sorted_wrt (<) (map fst obj) \<Longrightarrow> sorted_wrt (<) (map fst (obj_incr k obj))"
proof (induction k obj rule: obj_incr.induct)
  case (1 k)
  show ?case by simp
next
  case (2 k k' c rest)
  show ?case
  proof (cases "k = k' \<or> k < k'")
    case True
    with "2.prems" show ?thesis by auto
  next
    case False
    with "2.prems" "2.IH" have "sorted_wrt (<) (map fst (obj_incr k rest))"
      by simp
    moreover have "\<forall>x\<in>set (map fst (obj_incr k rest)). k' < x"
      using False "2.prems" by (auto simp: keys_obj_incr simp del: set_map)
    ultimately show ?thesis
      using False by simp
  qed
qed

lemma obj_get_absent: "k \<notin> set (map fst obj) \<Longrightarrow> obj_get obj k = 0"
  by (simp add: obj_get_def map_of_eq_None_iff [THEN iffD2])

lemma obj_get_Cons: "obj_get ((k', c) # rest) j = (if j = k' then c else obj_get rest j)"
  by (simp add: obj_get_def)

lemma obj_get_obj_incr:
  "sorted_wrt (<) (map fst obj) \<Longrightarrow>
     obj_get (obj_incr k obj) j = (if j = k then obj_get obj k + 1 else obj_get obj j)"
proof (induction k obj rule: obj_incr.induct)
  case (1 k)
  show ?case by (simp add: obj_get_def)
next
  case (2 k k' c rest)
  show ?case
  proof (cases "k = k'")
    case True
    then show ?thesis by (simp add: obj_get_Cons)
  next
    case neq: False
    show ?thesis
    proof (cases "k < k'")
      case True
      with "2.prems" have "k \<notin> set (map fst ((k', c) # rest))"
        by auto
      then have "obj_get ((k', c) # rest) k = 0"
        by (rule obj_get_absent)
      with True neq show ?thesis
        by (simp add: obj_get_Cons)
    next
      case False
      from "2.prems" have "sorted_wrt (<) (map fst rest)"
        by simp
      with "2.IH" neq False
      have "obj_get (obj_incr k rest) j = (if j = k then obj_get rest k + 1 else obj_get rest j)"
        by simp
      with neq False show ?thesis
        by (auto simp: obj_get_Cons)
    qed
  qed
qed

lemma tally_step_fold:
  "sorted_wrt (<) (map fst obj) \<Longrightarrow>
     sorted_wrt (<) (map fst (fold (\<lambda>t votes. obj_incr (traverseTree fv t) votes) ts obj)) \<and>
     set (map fst (fold (\<lambda>t votes. obj_incr (traverseTree fv t) votes) ts obj)) =
       set (map fst obj) \<union> traverseTree fv ` set ts \<and>
     (\<forall>k. obj_get (fold (\<lambda>t votes. obj_incr (traverseTree fv t) votes) ts obj) k =
          obj_get obj k + votes_for fv ts k)"
proof (induction ts arbitrary: obj)
  case Nil
  then show ?case by (simp add: votes_for_def)
next
  case (Cons t ts)
  let ?obj = "obj_incr (traverseTree fv t) obj"
  have s: "sorted_wrt (<) (map fst ?obj)"
    using Cons.prems by (rule sorted_obj_incr)
  from Cons.IH [OF s] show ?case
    using keys_obj_incr [of "traverseTree fv t" obj] obj_get_obj_incr [OF Cons.prems]
    by (auto simp: votes_for_def simp del: set_map)
qed

lemma tally_sorted: "sorted_wrt (<) (obj_keys (tally fv ts))"
  using tally_step_fold [of "[]" fv ts] by (simp add: tally_def obj_keys_def)

lemma tally_keys: "set (obj_keys (tally fv ts)) = traverseTree fv ` set ts"
  using tally_step_fold [of "[]" fv ts] by (simp add: tally_def obj_keys_def)

lemma tally_get: "obj_get (tally fv ts) k = votes_for fv ts k"
  using tally_step_fold [of "[]" fv ts] by (simp add: tally_def obj_get_def)

lemma votes_for_pos: "0 < votes_for fv ts k \<longleftrightarrow> k \<in> traverseTree fv ` set ts"
  by (auto simp: votes_for_def filter_empty_conv)

text \<open>The reducer keeps the last of the keys with the highest count.\<close>

lemma reduce_last_max:
  fixes c :: "nat \<Rightarrow> nat"
  assumes "sorted_wrt (<) (key # keys)"
  defines "r \<equiv> foldl (\<lambda>a b. if c a > c b then a else b) key keys"
  shows "r \<in> set (key # keys) \<and> (\<forall>k\<in>set (key # keys). c k \<le> c r) \<and>
         (\<forall>k\<in>set (key # keys). c k = c r \<longrightarrow> k \<le> r)"
  using assms(1) unfolding r_def
proof (induction keys rule: rev_induct)
  case Nil
  show ?case by simp
next
  case (snoc x keys)
  let ?r = "foldl (\<lambda>a b. if c a > c b then a else b) key keys"
  from snoc.prems have s: "sorted_wrt (<) (key # keys)" and big: "\<forall>k\<in>set (key # keys). k < x"
    by (auto simp: sorted_wrt_append)
  note ih = snoc.IH [OF s]
  show ?case
  proof (cases "c ?r > c x")
    case True
    with ih show ?thesis by auto
  next
    case False
    with ih big show ?thesis
      by (auto simp: less_imp_le)
  qed
qed

text \<open>
  C4. The claim: for every non-empty tree list and every feature vector,
  \<open>predictInstance\<close> returns the class with the most votes, and of several classes
  with the most votes the lowest index. The first half holds. The second fails:
  the reducer \<open>votes[a] > votes[b] ? a : b\<close> moves on to \<open>b\<close> on a tie, so with one
  vote for class 0 and one for class 1 the result is class 1.
\<close>

theorem predictInstance_tie_counterexample:
  "votes_for [] [Leaf 0 1 None, Leaf 1 1 None] 0 = 1 \<and>
   votes_for [] [Leaf 0 1 None, Leaf 1 1 None] 1 = 1 \<and>
   predictInstance [] [Leaf 0 1 None, Leaf 1 1 None] = Inr (Num 1)"
  by (simp add: votes_for_def predictInstance_def tally_def obj_keys_def obj_get_def)

text \<open>
  C4, amended: for every non-empty tree list and every feature vector,
  \<open>predictInstance\<close> returns a class with the most votes, and of several classes
  with the most votes the highest index. (The class comes back as a number, or as
  the key string when all trees vote for one class; \<open>class_index\<close> reads both.)
\<close>

theorem predictInstance_majority:
  assumes "ts \<noteq> []"
  shows "\<exists>c. predictInstance fv ts = Inr c \<and>
             (\<forall>k. votes_for fv ts k \<le> votes_for fv ts (class_index c)) \<and>
             (\<forall>k. votes_for fv ts k = votes_for fv ts (class_index c) \<longrightarrow> k \<le> class_index c)"
proof -
  from assms have ne: "obj_keys (tally fv ts) \<noteq> []"
    using tally_keys [of fv ts] by (metis empty_is_image set_empty)
  then obtain key keys where ks: "obj_keys (tally fv ts) = key # keys"
    by (cases "obj_keys (tally fv ts)") auto
  define r where "r = foldl (\<lambda>a b. if votes_for fv ts a > votes_for fv ts b then a else b) key keys"
  have "sorted_wrt (<) (key # keys)"
    using tally_sorted [of fv ts] by (simp add: ks)
  from reduce_last_max [OF this, of "votes_for fv ts"]
  have r: "r \<in> set (key # keys)" "\<forall>k\<in>set (key # keys). votes_for fv ts k \<le> votes_for fv ts r"
    "\<forall>k\<in>set (key # keys). votes_for fv ts k = votes_for fv ts r \<longrightarrow> k \<le> r"
    by (simp_all add: r_def)
  have keyset: "set (key # keys) = traverseTree fv ` set ts"
    using tally_keys [of fv ts] by (simp add: ks)
  have pos: "0 < votes_for fv ts r"
    using r(1) keyset votes_for_pos by blast
  have max: "votes_for fv ts k \<le> votes_for fv ts r" for k
  proof (cases "k \<in> set (key # keys)")
    case True
    with r(2) show ?thesis by blast
  next
    case False
    with keyset votes_for_pos [of fv ts k] have "votes_for fv ts k = 0" by simp
    then show ?thesis by simp
  qed
  have tie: "k \<le> r" if "votes_for fv ts k = votes_for fv ts r" for k
  proof -
    from that pos have "k \<in> set (key # keys)"
      using keyset votes_for_pos [of fv ts k] by simp
    with r(3) that show ?thesis by blast
  qed
  have "\<exists>c. predictInstance fv ts = Inr c \<and> class_index c = r"
  proof (cases keys)
    case Nil
    then show ?thesis
      by (simp add: predictInstance_def ks class_index_def r_def)
  next
    case (Cons k2 rest)
    then show ?thesis
      by (simp add: predictInstance_def ks class_index_def r_def tally_get)
  qed
  with max tie show ?thesis by auto
qed

theorem predictInstance_majority_witness:
  "[Leaf 0 1 None, Leaf 2 1 None, Leaf 2 1 None, Leaf 0 1 None, Leaf 1 1 None] \<noteq> [] \<and>
   (\<exists>c. predictInstance []
           [Leaf 0 1 None, Leaf 2 1 None, Leaf 2 1 None, Leaf 0 1 None, Leaf 1 1 None] = Inr c \<and>
        class_index c = 2)"
proof -
  let ?ts = "[Leaf 0 1 None, Leaf 2 1 None, Leaf 2 1 None, Leaf 0 1 None, Leaf 1 1 None]"
  have ne: "?ts \<noteq> []" by simp
  have v: "votes_for [] ?ts k = (if k = 0 \<or> k = 2 then 2 else if k = 1 then 1 else 0)" for k
    by (simp add: votes_for_def)
  from predictInstance_majority [OF ne, of "[]"]
  obtain c where c: "predictInstance [] ?ts = Inr c"
    and mx: "\<forall>k. votes_for [] ?ts k \<le> votes_for [] ?ts (class_index c)"
    and tie: "\<forall>k. votes_for [] ?ts k = votes_for [] ?ts (class_index c) \<longrightarrow> k \<le> class_index c"
    by blast
  from mx [rule_format, of 0] have "class_index c = 0 \<or> class_index c = 2"
    unfolding v by (simp split: if_splits)
  moreover have "class_index c \<noteq> 0"
  proof
    assume z: "class_index c = 0"
    from tie [rule_format, of 2] show False
      unfolding v z by simp
  qed
  ultimately have "class_index c = 2"
    by simp
  with c ne show ?thesis
    by blast
qed

section \<open>Properties of feature extraction\<close>

lemma length_bump: "length (bump hist c) = length hist"
  by (simp add: bump_def Let_def)

lemma hist_step_pixel:
  "hist_step (pr, pg, pb, pa) (r, g, b) = (bump r pr, bump g pg, bump b pb)"
  by (simp add: hist_step_def)

lemma hist_fold_lengths:
  "fold hist_step data (r, g, b) = (r', g', b') \<Longrightarrow>
     length r' = length r \<and> length g' = length g \<and> length b' = length b"
proof (induction data arbitrary: r g b)
  case Nil
  then show ?case by simp
next
  case (Cons px data)
  obtain pr pg pb pa where px: "px = (pr, pg, pb, pa)"
    by (cases px) auto
  from Cons.prems have "fold hist_step data (bump r pr, bump g pg, bump b pb) = (r', g', b')"
    by (simp add: px hist_step_pixel)
  from Cons.IH [OF this] show ?case
    by (simp add: length_bump)
qed

lemma length_computeImageFeatures: "length (computeImageFeatures data) = 15"
proof -
  obtain r g b where f: "fold hist_step data (replicate 4 0, replicate 4 0, replicate 4 0) = (r, g, b)"
    by (metis prod_cases3)
  from hist_fold_lengths [OF f] show ?thesis
    by (simp add: computeImageFeatures_def f Let_def)
qed

text \<open>
  C5. The claim: in a batch, the zero vector that stands in for a sample whose
  extraction failed is as long as the vectors of the samples that succeeded, so
  all vectors of the batch have one length. In the code a vector that
  \<open>computeImageFeatures\<close> makes has 15 entries (three histograms of 4 bins and 3
  means), and the fallback is \<open>new Array(24).fill(0)\<close>: a batch of one image that
  loads and one that does not has vectors of length 15 and 24.
\<close>

theorem extractFeatures_fallback_length:
  "map length (extractFeatures (\<lambda>url. if url = ''good'' then Inr data else Inl e)
                               [''good'', ''bad'']) = [15, 24]"
  by (simp add: extractImageFeatures_def length_computeImageFeatures)

section \<open>Properties of training\<close>

text \<open>\<open>floor_sqrt\<close> is \<open>Math.floor(Math.sqrt(n))\<close>.\<close>

lemma floor_sqrt_eq: "floor_sqrt n = nat \<lfloor>sqrt (real n)\<rfloor>"
proof -
  let ?S = "{m. m \<le> n \<and> m * m \<le> n}"
  let ?m = "floor_sqrt n"
  have "set (filter (\<lambda>m. m * m \<le> n) [0..<Suc n]) = ?S"
    by (auto simp del: upt_Suc)
  then have m: "?m = Max ?S"
    by (simp only: floor_sqrt_def)
  have fin: "finite ?S"
    by simp
  have "0 \<in> ?S"
    by simp
  then have ne: "?S \<noteq> {}"
    by blast
  from Max_in [OF fin ne] have "?m \<in> ?S"
    by (simp only: m)
  then have lo: "?m * ?m \<le> n"
    by blast
  have hi: "n < (?m + 1) * (?m + 1)"
  proof (rule ccontr)
    assume "\<not> n < (?m + 1) * (?m + 1)"
    then have sq: "(?m + 1) * (?m + 1) \<le> n"
      by simp
    moreover have "?m + 1 \<le> (?m + 1) * (?m + 1)"
      by simp
    ultimately have "?m + 1 \<in> ?S"
      by simp
    from Max_ge [OF fin this] show False
      by (simp only: m [symmetric])
  qed
  have "real ?m \<le> sqrt (real n)"
  proof -
    have "real ?m = sqrt (real (?m * ?m))"
      by simp
    also have "\<dots> \<le> sqrt (real n)"
      using lo by (simp only: real_sqrt_le_iff of_nat_le_iff)
    finally show ?thesis .
  qed
  moreover have "sqrt (real n) < real ?m + 1"
  proof -
    have "sqrt (real n) < sqrt (real ((?m + 1) * (?m + 1)))"
      using hi by (simp only: real_sqrt_less_iff of_nat_less_iff)
    also have "\<dots> = sqrt ((real ?m + 1) * (real ?m + 1))"
      by (simp only: of_nat_mult of_nat_add of_nat_1)
    also have "\<dots> = \<bar>real ?m + 1\<bar>"
      by (rule real_sqrt_abs2)
    also have "\<dots> = real ?m + 1"
      by simp
    finally show ?thesis .
  qed
  ultimately have "\<lfloor>sqrt (real n)\<rfloor> = int ?m"
    by (intro floor_unique) simp_all
  then show ?thesis
    by simp
qed

text \<open>
  A split can leave one side empty: the threshold is one of the values of the
  feature, and when it is the largest one every sample goes left. Such a split has
  gain 0, which beats the initial best gain of -1. With the two samples and the
  random source of the example this happens at every depth.
\<close>

lemma calculateEntropy_Nil: "calculateEntropy [] = 0"
  by (simp add: calculateEntropy_def)

lemma two_samples_facts:
  "length two_samples = 2" "two_samples \<noteq> []" "length (fst (hd two_samples)) = 1"
  "filter (goes_left 0 (Some 1)) two_samples = two_samples"
  "filter (\<lambda>s. \<not> goes_left 0 (Some 1) s) two_samples = []"
  "js_unique (map (\<lambda>s. js_nth (fst s) 0) two_samples) = [Some 0, Some 1]"
  "length (js_unique (map snd two_samples)) = 2"
  "createLeafNode (map snd two_samples) = Inr (Leaf 1 2 (Some [(0, 1), (1, 1)]))"
  by (simp_all add: two_samples_def goes_left_def js_le_def js_nth_def js_unique_def
                    createLeafNode_def js_reduce_def obj_keys_def obj_get_def)

lemma split_two:
  "findBestSplit half k two_samples =
     Some (Some \<lparr> sp_featureIndex = 0, sp_threshold = Some 1, sp_gain = 0 \<rparr>, k + 6)"
proof -
  let ?best = "\<lparr> sp_featureIndex = 0, sp_threshold = Some 1, sp_gain = 0 \<rparr>"
  have fs: "floor_sqrt 1 = 1" "floor_sqrt (Suc 0) = Suc 0"
    by code_simp+
  have ri: "random_index half j 1 = 0" "random_index half j 2 = 1"
    "random_index half j (Suc 0) = 0" "random_index half j (Suc (Suc 0)) = Suc 0" for j
    by (simp_all add: random_index_def half_def frac_eq)
  have gain: "calculateInformationGain two_samples 0 (Some 1) = 0"
    by (simp add: calculateInformationGain_def two_samples_facts calculateEntropy_Nil Let_def)
  have first: "try_threshold half j two_samples 0 [Some 0, Some 1] i (- 1, None) =
                 (0, Some ?best)" for j i
    by (simp add: try_threshold_def ri gain Let_def)
  have later: "try_threshold half j two_samples 0 [Some 0, Some 1] i (0, Some ?best) =
                 (0, Some ?best)" for j i
    by (simp add: try_threshold_def ri gain Let_def)
  have five: "fold (try_threshold half j two_samples 0 [Some 0, Some 1]) [0..<5] (- 1, None) =
                (0, Some ?best)" for j
    by (simp add: first later upt_conv_Cons)
  have fin: "findBestSplit_loop half two_samples a (Suc 0) ([0], (0, Some ?best), k + 6)
              = Some (Some ?best, k + 6)" for a
    by (subst findBestSplit_loop.simps) simp
  have "findBestSplit_loop half two_samples 1 1 ([], (- 1, None), k) = Some (Some ?best, k + 6)"
    by (subst findBestSplit_loop.simps) (simp add: ri two_samples_facts five fin Let_def)
  then show ?thesis
    by (simp add: findBestSplit_def fs two_samples_facts Let_def)
qed

lemma empty_right_partition:
  "d < 10 \<Longrightarrow>
     trainDecisionTree half k two_samples d 10 =
       Some (Inl (TypeError ''Reduce of empty array with no initial value''))"
proof (induction "9 - d" arbitrary: d k)
  case 0
  then have d: "d = 9" by simp
  have leaf: "trainDecisionTree half (k + 6) two_samples 10 10 =
                Some (Inr (Leaf 1 2 (Some [(0, 1), (1, 1)]), k + 6))"
    by (subst trainDecisionTree.simps) (simp add: two_samples_facts)
  have empty: "trainDecisionTree half (k + 6) [] 10 10 =
                 Some (Inl (TypeError ''Reduce of empty array with no initial value''))"
    by (subst trainDecisionTree.simps)
       (simp add: createLeafNode_def js_reduce_def obj_keys_def)
  show ?case
    unfolding d
    by (subst trainDecisionTree.simps)
       (simp add: two_samples_facts split_two leaf empty Let_def)
next
  case (Suc n)
  then have "n = 9 - (d + 1)" and "d + 1 < 10"
    by simp_all
  from Suc.hyps(1) [OF this]
  have left: "trainDecisionTree half (k + 6) two_samples (Suc d) 10 =
                Some (Inl (TypeError ''Reduce of empty array with no initial value''))"
    by simp
  from Suc.prems show ?case
    by (subst trainDecisionTree.simps)
       (simp add: two_samples_facts split_two left Let_def)
qed

text \<open>
  C6. The claim: \<open>trainDecisionTree\<close> on an empty sample list returns a leaf, at
  every depth, also for the empty partitions that splitting produces. In the code
  the empty list goes to \<open>createLeafNode\<close>, whose \<open>reduce\<close> over the keys of the
  empty \<open>counts\<close> has no initial value and raises a \<open>TypeError\<close>, whatever the depth
  and the random source. And splitting does produce an empty partition: growing a
  tree on the two samples of the example fails with that error.
\<close>

theorem trainDecisionTree_empty:
  "trainDecisionTree rng k [] depth maxDepth =
     Some (Inl (TypeError ''Reduce of empty array with no initial value'')) \<and>
   trainDecisionTree half 0 two_samples 0 10 =
     Some (Inl (TypeError ''Reduce of empty array with no initial value''))"
  by (simp add: trainDecisionTree.simps [of rng k "[]"] createLeafNode_def js_reduce_def
                obj_keys_def empty_right_partition)

text \<open>
  C8. \<open>train\<close> on a dataset without images (or without a dataset) fails with the
  error \<open>No training data available\<close> and leaves the trainer as it was; a new
  trainer is still untrained and holds no model.
\<close>

theorem train_empty_dataset:
  "train decode rng k this (Some []) =
     Some (Inl (Error ''No training data available''), this, k) \<and>
   train decode rng k this None =
     Some (Inl (Error ''No training data available''), this, k) \<and>
   train decode rng k RandomForestTrainer (Some []) =
     Some (Inl (Error ''No training data available''),
           \<lparr> model = None, isTrained = False, features = [], labels = [], numTrees = 50,
             classNames = [] \<rparr>, k)"
  by (simp add: train_def RandomForestTrainer_def)

section \<open>Properties of the model manager\<close>

lemma saveModel_ledger:
  "savedModels (snd (saveModel this t now)) = savedModels this \<or>
   (\<exists>info. fst (saveModel this t now) = Inr info \<and>
           info_id info = Some (length (savedModels this)) \<and>
           savedModels (snd (saveModel this t now)) = savedModels this @ [info])"
  by (auto simp: saveModel_def Let_def split: option.splits sum.splits)

lemma perform_ledger:
  "savedModels (perform c this) = savedModels this \<or>
   (\<exists>info. info_id info = Some (length (savedModels this)) \<and>
           savedModels (perform c this) = savedModels this @ [info])"
proof (cases c)
  case (SaveModel t now)
  with saveModel_ledger [of this t now] show ?thesis
    by auto
qed (auto simp: setModel_def setEvaluationResults_def setTrainingStatus_def reset_def
          split: sum.splits)

lemma perform_prefix: "prefix (savedModels this) (savedModels (perform c this))"
  using perform_ledger [of c this] by auto

lemma fold_perform_prefix: "prefix (savedModels this) (savedModels (fold perform cs this))"
proof (induction cs arbitrary: this)
  case Nil
  show ?case by simp
next
  case (Cons c cs)
  have "prefix (savedModels this) (savedModels (perform c this))"
    by (rule perform_prefix)
  also have "prefix \<dots> (savedModels (fold perform cs (perform c this)))"
    by (rule Cons.IH)
  finally show ?case by simp
qed

lemma perform_ids: "ids_in_order this \<Longrightarrow> ids_in_order (perform c this)"
  using perform_ledger [of c this] by (auto simp: ids_in_order_def)

lemma fold_perform_ids: "ids_in_order this \<Longrightarrow> ids_in_order (fold perform cs this)"
  by (induction cs arbitrary: this) (simp_all add: perform_ids)

text \<open>
  C10. \<open>reset\<close> clears the model slots, the evaluation results and the training
  flag and leaves the ledger \<open>savedModels\<close> as it is. \<open>saveModel\<close> either leaves the
  ledger as it is (when it throws) or appends the descriptor it returns, whose id
  is the length of the ledger before. After any sequence of calls on a new manager
  the ids are 0, 1, 2, ... in the order of the entries, and any further calls keep
  the ledger as a prefix: no entry is removed or changed.
\<close>

theorem ledger_append_only:
  "savedModels (reset this) = savedModels this \<and>
   models (reset this) = models ModelManager \<and>
   evaluationResults (reset this) = [] \<and>
   isTraining (reset this) = False \<and>
   (savedModels (snd (saveModel this t now)) = savedModels this \<or>
    (\<exists>info. fst (saveModel this t now) = Inr info \<and>
            info_id info = Some (length (savedModels this)) \<and>
            savedModels (snd (saveModel this t now)) = savedModels this @ [info])) \<and>
   map info_id (savedModels (fold perform cs ModelManager)) =
     map Some [0..<length (savedModels (fold perform cs ModelManager))] \<and>
   prefix (savedModels (fold perform cs ModelManager))
          (savedModels (fold perform cs' (fold perform cs ModelManager)))"
proof -
  have "ids_in_order ModelManager"
    by (simp add: ids_in_order_def ModelManager_def)
  then have "ids_in_order (fold perform cs ModelManager)"
    by (rule fold_perform_ids)
  then show ?thesis
    using saveModel_ledger [of this t now] fold_perform_prefix
    by (simp add: ids_in_order_def reset_def ModelManager_def)
qed

section \<open>Properties of a trained forest\<close>

text \<open>
  Every leaf of a tree carries a label of the samples the tree was grown from, and
  the samples of every tree of a forest are drawn from the training set.
\<close>

lemma traverseTree_leaf: "traverseTree fv t \<in> leaf_values t"
  by (induction t) auto

lemma keys_fold_obj_incr:
  "set (map fst (fold obj_incr xs obj)) = set (map fst obj) \<union> set xs"
  by (induction xs arbitrary: obj) (auto simp: keys_obj_incr simp del: set_map)

lemma foldl_choice:
  assumes "\<And>a b. f a b = a \<or> f a b = b"
  shows "foldl f x xs \<in> set (x # xs)"
proof (induction xs arbitrary: x)
  case Nil
  show ?case by simp
next
  case (Cons y ys)
  from assms [of x y] Cons.IH [of "f x y"] show ?case
    by auto
qed

lemma createLeafNode_value:
  assumes "createLeafNode ls = Inr t"
  shows "leaf_values t \<subseteq> set ls"
proof -
  let ?counts = "fold obj_incr ls []"
  let ?f = "\<lambda>a b. if obj_get ?counts a > obj_get ?counts b then a else b"
  from assms obtain key keys where ks: "obj_keys ?counts = key # keys"
    and t: "t = Leaf (foldl ?f key keys) (length ls) (Some ?counts)"
    by (auto simp: createLeafNode_def js_reduce_def Let_def split: list.splits)
  have "foldl ?f key keys \<in> set (key # keys)"
    by (rule foldl_choice) simp
  also have "set (key # keys) = set ls"
    using keys_fold_obj_incr [of ls "[]"] by (simp add: ks [symmetric] obj_keys_def)
  finally show ?thesis
    by (simp add: t)
qed

lemma set_js_unique_acc: "set (js_unique_acc seen xs) = set seen \<union> set xs"
  by (induction seen xs rule: js_unique_acc.induct) auto

lemma set_js_unique: "set (js_unique xs) = set xs"
  by (simp add: js_unique_def set_js_unique_acc)

lemma trainDecisionTree_leaves:
  "trainDecisionTree rng k samples depth maxDepth = Some (Inr (t, k')) \<Longrightarrow>
     leaf_values t \<subseteq> snd ` set samples"
proof (induction rng k samples depth maxDepth arbitrary: t k' rule: trainDecisionTree.induct)
  case (1 rng k samples depth maxDepth)
  note run = "1.prems" [unfolded trainDecisionTree.simps [of rng k samples depth maxDepth]]
  show ?case
  proof (cases "length samples = 0 \<or> maxDepth \<le> depth")
    case True
    with run have "createLeafNode (map snd samples) = Inr t"
      by (auto split: sum.splits)
    from createLeafNode_value [OF this] show ?thesis
      by simp
  next
    case deep: False
    let ?u = "js_unique (map snd samples)"
    show ?thesis
    proof (cases "length ?u = 1")
      case True
      with run deep have t: "t = Leaf (hd ?u) (length samples) None"
        by (simp add: Let_def)
      from True have "hd ?u \<in> set ?u"
        by (cases ?u) auto
      then show ?thesis
        by (simp add: t set_js_unique)
    next
      case several: False
      from run deep several obtain sp k1 where fb: "findBestSplit rng k samples = Some (sp, k1)"
        by (auto simp: Let_def split: option.splits)
      show ?thesis
      proof (cases sp)
        case None
        with run deep several fb have "createLeafNode (map snd samples) = Inr t"
          by (auto simp: Let_def split: sum.splits)
        from createLeafNode_value [OF this] show ?thesis
          by simp
      next
        case (Some bs)
        let ?go = "goes_left (sp_featureIndex bs) (sp_threshold bs)"
        let ?l = "filter ?go samples"
        let ?r = "filter (\<lambda>s. \<not> ?go s) samples"
        from run deep several fb Some obtain l k2 r k3
          where left: "trainDecisionTree rng k1 ?l (depth + 1) maxDepth = Some (Inr (l, k2))"
            and right: "trainDecisionTree rng k2 ?r (depth + 1) maxDepth = Some (Inr (r, k3))"
            and t: "t = Node (sp_featureIndex bs) (sp_threshold bs) l r"
          by (auto simp: Let_def split: option.splits sum.splits)
        have "leaf_values l \<subseteq> snd ` set ?l"
          using "1.IH"(1) [OF deep refl several fb refl Some refl refl refl left] .
        moreover have "leaf_values r \<subseteq> snd ` set ?r"
          using "1.IH"(2) [OF deep refl several fb refl Some refl refl refl left refl refl right] .
        ultimately show ?thesis
          by (auto simp: t)
      qed
    qed
  qed
qed

lemma random_index_less: "0 < n \<Longrightarrow> random_index rng k n < n"
proof -
  assume n: "0 < n"
  have "0 \<le> frac (rng k)" and "frac (rng k) < 1"
    by (simp_all add: frac_lt_1)
  then have "0 \<le> frac (rng k) * real n" and "frac (rng k) * real n < real n"
    using n by simp_all
  then have "\<lfloor>frac (rng k) * real n\<rfloor> < int n" and "0 \<le> \<lfloor>frac (rng k) * real n\<rfloor>"
    by (simp_all add: floor_less_iff)
  then show ?thesis
    unfolding random_index_def by linarith
qed

lemma set_bootstrap: "set (bootstrap rng k samples) \<subseteq> set samples"
proof (cases samples)
  case Nil
  then show ?thesis by (simp add: bootstrap_def)
next
  case (Cons s rest)
  then have "random_index rng j (length samples) < length samples" for j
    by (intro random_index_less) simp
  then show ?thesis
    by (auto simp: bootstrap_def)
qed

lemma grow_trees_leaves:
  "grow_trees rng k samples n = Some (Inr (ts, k')) \<Longrightarrow>
     length ts = n \<and> (\<forall>t\<in>set ts. leaf_values t \<subseteq> snd ` set samples)"
proof (induction n arbitrary: k ts k')
  case 0
  then show ?case by simp
next
  case (Suc n)
  from Suc.prems obtain t k1 rest where
    t: "trainDecisionTree rng (k + length samples) (bootstrap rng k samples) 0 10 = Some (Inr (t, k1))"
    and rest: "grow_trees rng k1 samples n = Some (Inr (rest, k'))"
    and ts: "ts = t # rest"
    by (auto split: option.splits sum.splits)
  from trainDecisionTree_leaves [OF t] set_bootstrap [of rng k samples]
  have "leaf_values t \<subseteq> snd ` set samples"
    by blast
  with Suc.IH [OF rest] show ?case
    by (simp add: ts)
qed

lemma predictInstance_no_trees: "predictInstance fv [] = Inl (TypeError ''Reduce of empty array with no initial value'')"
  by (simp add: predictInstance_def tally_def obj_keys_def)

lemma calculateAccuracy_trees:
  "calculateAccuracy samples ts = Inr acc \<Longrightarrow> samples \<noteq> [] \<Longrightarrow> ts \<noteq> []"
  by (cases samples) (auto simp: calculateAccuracy_def predictInstance_no_trees split: sum.splits)

lemma trainRandomForest_forest:
  assumes "trainRandomForest rng k n samples = Some (Inr (m, k'))" and "samples \<noteq> []"
  shows "trees m \<noteq> [] \<and> (\<forall>t\<in>set (trees m). leaf_values t \<subseteq> snd ` set samples)"
proof -
  from assms(1) obtain k1 acc where
    g: "grow_trees rng k samples n = Some (Inr (trees m, k1))"
    and a: "calculateAccuracy samples (trees m) = Inr acc"
    by (auto simp: trainRandomForest_def split: option.splits sum.splits)
  from calculateAccuracy_trees [OF a assms(2)] grow_trees_leaves [OF g] show ?thesis
    by simp
qed

lemma length_extractFeatures: "length (extractFeatures decode images) = length images"
  by (induction images) simp_all

text \<open>A successful \<open>train\<close> leaves a trainer that holds a trained forest.\<close>

lemma train_trained:
  assumes "train decode rng k this (Some ds) = Some (Inr res, this', k')"
  shows "\<exists>m. trained_forest this' m \<and> labels this' = map snd ds"
proof -
  let ?samples = "zip (extractFeatures decode (map fst ds)) (map snd ds)"
  from assms have ne: "ds \<noteq> []"
    by (auto simp: train_def split: if_splits)
  with assms obtain m where
    rf: "trainRandomForest rng k (numTrees this) ?samples = Some (Inr (m, k'))"
    and st: "model this' = Some m" "isTrained this'" "labels this' = map snd ds"
    by (auto simp: train_def Let_def split: option.splits sum.splits)
  have "length ?samples = length ds"
    by (simp add: length_extractFeatures)
  with ne have "?samples \<noteq> []"
    by auto
  from trainRandomForest_forest [OF rf this]
  have ts: "trees m \<noteq> []" and lv: "\<forall>t\<in>set (trees m). leaf_values t \<subseteq> snd ` set ?samples"
    by simp_all
  have sub: "snd ` set ?samples \<subseteq> set (map snd ds)"
    by (auto dest: set_zip_rightD)
  have "v < num_classes (labels this')" if "t \<in> set (trees m)" and "v \<in> leaf_values t" for t v
  proof -
    from that lv sub have "v \<in> set (map snd ds)"
      by blast
    then have "v \<le> Max (set (map snd ds))"
      by (intro Max_ge) simp_all
    with ne show ?thesis
      by (simp add: num_classes_def st)
  qed
  with st ts ne show ?thesis
    by (auto simp: trained_forest_def)
qed

lemma votes_for_Cons:
  "votes_for fv (t # ts) i = (if traverseTree fv t = i then 1 else 0) + votes_for fv ts i"
  by (simp add: votes_for_def)

lemma sum_votes:
  "\<forall>t\<in>set ts. traverseTree fv t < n \<Longrightarrow> (\<Sum>i<n. votes_for fv ts i) = length ts"
proof (induction ts)
  case Nil
  show ?case by (simp add: votes_for_def)
next
  case (Cons t ts)
  then have lt: "traverseTree fv t < n" and rest: "(\<Sum>i<n. votes_for fv ts i) = length ts"
    by simp_all
  have "(\<Sum>i<n. if traverseTree fv t = i then 1 else 0) = (1::nat)"
    using lt by simp
  then show ?case
    by (simp add: votes_for_Cons sum.distrib rest)
qed

text \<open>
  C3. For every trainer that holds a trained forest (at least one tree, grown from
  a non-empty dataset, so that every leaf carries a class below \<open>numClasses\<close>) and
  every feature vector, \<open>predict\<close> returns a vector whose length is \<open>numClasses\<close>,
  the largest training label plus one, whose entry \<open>i\<close> is the number of trees that
  vote for class \<open>i\<close> divided by the number of trees, and whose entries sum to 1 (so
  within \<open>1e-6\<close> of 1). The quotients of the model are exact; the tolerance of the
  claim covers the rounding of the source's floating-point numbers.
\<close>

theorem predict_probabilities:
  assumes "trained_forest this m"
  shows "\<exists>p. predict_features this fv = Inr p \<and>
           length p = Max (set (labels this)) + 1 \<and>
           (\<forall>i<length p. p ! i = real (votes_for fv (trees m) i) / real (length (trees m))) \<and>
           sum_list p = 1 \<and> \<bar>sum_list p - 1\<bar> \<le> 1 / 10 ^ 6 \<and>
           (\<forall>decode url. extractImageFeatures decode url = Inr fv
                           \<longrightarrow> predict decode this url = Inr p)"
proof -
  from assms have m: "model this = Some m" and tr: "isTrained this" and ts: "trees m \<noteq> []"
    and ne: "labels this \<noteq> []"
    and lv: "\<forall>t\<in>set (trees m). \<forall>v\<in>leaf_values t. v < num_classes (labels this)"
    by (simp_all add: trained_forest_def)
  let ?n = "Max (set (labels this)) + 1"
  let ?T = "length (trees m)"
  define p where "p = map (\<lambda>i. real (votes_for fv (trees m) i) / real ?T) [0..<?n]"
  have nc: "num_classes (labels this) = ?n"
    using ne by (simp add: num_classes_def)
  have pf: "predict_features this fv = Inr p"
    by (simp add: predict_features_def m Let_def nc p_def tally_get)
  have below: "traverseTree fv t < ?n" if "t \<in> set (trees m)" for t
    using that lv traverseTree_leaf [of fv t] nc by auto
  have "sum_list p = (\<Sum>i<?n. real (votes_for fv (trees m) i) / real ?T)"
    by (simp add: p_def interv_sum_list_conv_sum_set_nat atLeast0LessThan)
  also have "\<dots> = real (\<Sum>i<?n. votes_for fv (trees m) i) / real ?T"
    by (simp only: of_nat_sum sum_divide_distrib)
  also have "\<dots> = real ?T / real ?T"
    using sum_votes [of "trees m" fv ?n] below by simp
  also have "\<dots> = 1"
    using ts by simp
  finally have one: "sum_list p = 1" .
  have "predict decode this url = Inr p"
    if "extractImageFeatures decode url = Inr fv" for decode url
    using that tr pf by (simp add: predict_def)
  moreover have "length p = ?n"
    by (simp add: p_def)
  moreover have "\<forall>i<length p. p ! i = real (votes_for fv (trees m) i) / real ?T"
    by (simp add: p_def del: upt_Suc)
  ultimately show ?thesis
    using pf one by auto
qed

text \<open>
  An example: a new trainer trained on two images with the labels 1 and 0, with a
  random source whose every draw is 0. Every bootstrap sample is the first image
  twice, so every one of the 50 trees is a leaf for class 1.
\<close>

theorem predict_probabilities_witness:
  "\<exists>res this' k'.
     train (\<lambda>url. Inr [(255, 0, 0, 255)]) (\<lambda>k. 0) 0 RandomForestTrainer
           (Some [(''a'', 1), (''b'', 0)]) = Some (Inr res, this', k') \<and>
     (\<exists>p. predict_features this' [] = Inr p \<and> length p = 2 \<and> sum_list p = 1)"
proof -
  let ?f = "[0, 0, 0, 1, 1, 0, 0, 0, 1, 0, 0, 0, 224 / 255, 32 / 255, 32 / 255] :: real list"
  let ?trained = "\<lparr> model = Some \<lparr> trees = replicate 50 (Leaf 1 2 None), forest_accuracy = 0 \<rparr>,
                 isTrained = True, features = [?f, ?f], labels = [1, 0], numTrees = 50,
                 classNames = [''Class 0'', ''Class 1''] \<rparr>"
  have tr: "train (\<lambda>url. Inr [(255, 0, 0, 255)]) (\<lambda>k. 0) 0 RandomForestTrainer
              (Some [(''a'', 1), (''b'', 0)]) =
            Some (Inr \<lparr> tr_accuracy = 0, tr_trees = 50 \<rparr>, ?trained, 100)"
    by code_simp
  from train_trained [OF tr] obtain m where m: "trained_forest ?trained m"
    by blast
  from predict_probabilities [OF m, of "[]"] tr show ?thesis
    by auto
qed

section \<open>Properties of \<open>predictImage\<close>\<close>










lemma example_models:
  "models example_manager =
     [(''logisticRegression'', None), (''randomForest'', Some rejecting_model),
      (''cnn'', Some resolving_model)]"
  "models stalled_manager =
     [(''logisticRegression'', None), (''randomForest'', None), (''cnn'', Some stalling_model)]"
  "models null_manager =
     [(''logisticRegression'', None), (''randomForest'', None),
      (''cnn'', Some null_rejecting_model)]"
  by (simp_all add: example_manager_def stalled_manager_def null_manager_def ModelManager_def
                    setModel_def valid_type_def)





section \<open>The single-flight guard\<close>

lemma enter_cases:
  "enter this url = (p, r) \<Longrightarrow>
     (isPredicting this \<and> p = this \<and> r = Inl (Failed in_progress)) \<or>
     (\<not> isPredicting this \<and> p = this\<lparr> isPredicting := False \<rparr> \<and>
        (\<exists>out. r = Inl out \<and> out \<noteq> Failed in_progress)) \<or>
     (\<not> isPredicting this \<and> p = this\<lparr> isPredicting := True \<rparr> \<and> (\<exists>call. r = Inr call))"
  by (auto simp: enter_def Let_def in_progress_def split: if_splits option.splits sum.splits)

lemma continue_cases:
  "continue this call = (p, r) \<Longrightarrow>
     (p = this\<lparr> isPredicting := False \<rparr> \<and> (\<exists>out. r = Inl out \<and> out \<noteq> Failed in_progress)) \<or>
     (p = this \<and> (\<exists>call'. r = Inr call'))"
  by (auto simp: continue_def settled_entry_def in_progress_def
           split: prod.splits sum.splits option.splits reply.splits reason.splits)

lemma step_guarded:
  assumes "guarded s"
  shows "guarded (fst (step ev s))"
proof (cases ev)
  case (Invoke url)
  obtain p r where e: "enter (the_predictor s) url = (p, r)"
    by (cases "enter (the_predictor s) url") auto
  from enter_cases [OF e] assms show ?thesis
    by (auto simp: Invoke e guarded_def step.simps)
next
  case (Settle i)
  show ?thesis
  proof (cases "js_nth (suspended_calls s) i")
    case None
    with assms show ?thesis by (simp add: Settle step.simps)
  next
    case (Some call)
    with assms have one: "suspended_calls s = [call]" and i: "i = 0"
      and flag: "isPredicting (the_predictor s)"
      by (auto simp: guarded_def js_nth_def length_Suc_conv le_Suc_eq split: if_splits)
    obtain p r where c: "continue (the_predictor s) call = (p, r)"
      by (cases "continue (the_predictor s) call") auto
    have "step ev s =
            (case r of
               Inl out \<Rightarrow> (s\<lparr> the_predictor := p,
                              suspended_calls := remove_nth i (suspended_calls s) \<rparr>, Some out)
             | Inr call' \<Rightarrow> (s\<lparr> the_predictor := p,
                                suspended_calls := (suspended_calls s)[i := call'] \<rparr>, None))"
      by (simp add: Settle step.simps Some c)
    with continue_cases [OF c] flag show ?thesis
      by (auto simp: one i guarded_def remove_nth_def)
  qed
next
  case (Manager c)
  with assms show ?thesis
    by (simp add: guarded_def step.simps)
qed

lemma run_guarded: "guarded s \<Longrightarrow> guarded (run evs s)"
  unfolding run_def by (induction evs arbitrary: s) (simp_all add: step_guarded)

lemma start_guarded: "guarded (start mm dm)"
  by (simp add: guarded_def start_def Predictor_def)

lemma invoke_rejected:
  "snd (step (Invoke url) s) = Some (Failed in_progress) \<longleftrightarrow> isPredicting (the_predictor s)"
proof -
  obtain p r where e: "enter (the_predictor s) url = (p, r)"
    by (cases "enter (the_predictor s) url") auto
  from enter_cases [OF e] show ?thesis
    by (auto simp: e step.simps)
qed

lemma settled_clears:
  assumes "guarded s" and "step ev s = (s', Some out)" and "out \<noteq> Failed in_progress"
  shows "\<not> isPredicting (the_predictor s') \<and> suspended_calls s' = []"
proof -
  from assms(1) have g: "guarded s'"
    using step_guarded [of s ev] assms(2) by simp
  have "\<not> isPredicting (the_predictor s')"
  proof (cases ev)
    case (Invoke url)
    obtain p r where e: "enter (the_predictor s) url = (p, r)"
      by (cases "enter (the_predictor s) url") auto
    from enter_cases [OF e] assms(2,3) show ?thesis
      by (auto simp: Invoke e step.simps)
  next
    case (Settle i)
    show ?thesis
    proof (cases "js_nth (suspended_calls s) i")
      case None
      with assms(2) show ?thesis by (simp add: Settle step.simps)
    next
      case (Some call)
      obtain p r where c: "continue (the_predictor s) call = (p, r)"
        by (cases "continue (the_predictor s) call") auto
      from continue_cases [OF c] assms(2) show ?thesis
        by (auto simp: Settle Some c step.simps)
    qed
  next
    case (Manager c)
    with assms(2) show ?thesis by (simp add: step.simps)
  qed
  with g show ?thesis
    by (simp add: guarded_def)
qed

lemmas example_run_defs =
  run_def start_def Predictor_def step.simps enter_def continue_def example_models
  settled_entry_def rejecting_model_def resolving_model_def error_entry_def js_nth_def
  remove_nth_def Let_def in_progress_def

text \<open>
  C7. The claim: a call of \<open>predictImage\<close> fails with the error
  \<open>Prediction already in progress\<close> if and only if another call on the same
  predictor is still in flight; and after any call settles, whether it succeeded or
  failed, the guard is cleared so that the next call is accepted. The first half
  holds. The second does not hold for a call that the guard rejects: that call
  fails, and the guard stays with the call in flight. Here a first call is in
  flight, a second call fails at the guard, and afterwards the flag is still set
  and a third call fails at the guard too.
\<close>

theorem single_flight_counterexample:
  "snd (step (Invoke (Some ''second''))
         (run [Invoke (Some ''first'')] (start example_manager []))) = Some (Failed in_progress) \<and>
   isPredicting (the_predictor
     (run [Invoke (Some ''first''), Invoke (Some ''second'')] (start example_manager []))) \<and>
   snd (step (Invoke (Some ''third''))
         (run [Invoke (Some ''first''), Invoke (Some ''second'')] (start example_manager [])))
     = Some (Failed in_progress)"
  by (simp add: example_run_defs)

text \<open>
  C7, amended: in every state that a predictor reaches from its construction, by
  any sequence of calls, continuations and manager calls, a new call of
  \<open>predictImage\<close> fails with the error \<open>Prediction already in progress\<close> if and only
  if a call is suspended, that is, still in flight. And when a call that passed the
  guard settles, fulfilled or failed, no call is in flight, the flag is cleared, and
  the next call passes the guard. (The source throws a plain \<open>Error\<close> with that
  message, which the specification calls \<open>StateError\<close>.)
\<close>

theorem single_flight:
  "(\<forall>url. snd (step (Invoke url) (run evs (start mm dm))) = Some (Failed in_progress)
            \<longleftrightarrow> suspended_calls (run evs (start mm dm)) \<noteq> []) \<and>
   (\<forall>ev s' out. step ev (run evs (start mm dm)) = (s', Some out) \<and> out \<noteq> Failed in_progress
        \<longrightarrow> \<not> isPredicting (the_predictor s') \<and> suspended_calls s' = [] \<and>
            (\<forall>url. snd (step (Invoke url) s') \<noteq> Some (Failed in_progress)))"
proof -
  let ?s = "run evs (start mm dm)"
  have g: "guarded ?s"
    by (rule run_guarded) (rule start_guarded)
  then have "snd (step (Invoke url) ?s) = Some (Failed in_progress)
               \<longleftrightarrow> suspended_calls ?s \<noteq> []" for url
    by (simp add: invoke_rejected guarded_def)
  moreover have "\<not> isPredicting (the_predictor s') \<and> suspended_calls s' = [] \<and>
            (\<forall>url. snd (step (Invoke url) s') \<noteq> Some (Failed in_progress))"
    if "step ev ?s = (s', Some out)" and "out \<noteq> Failed in_progress" for ev s' out
    using settled_clears [OF g that] by (simp add: invoke_rejected)
  ultimately show ?thesis
    by blast
qed

theorem single_flight_witness:
  "snd (step (Invoke (Some ''second''))
         (run [Invoke (Some ''first'')] (start example_manager []))) = Some (Failed in_progress) \<and>
   (\<exists>s' res. step (Settle 0) (run [Invoke (Some ''first''), Settle 0] (start example_manager []))
                = (s', Some (Fulfilled res)) \<and>
             \<not> isPredicting (the_predictor s') \<and> suspended_calls s' = [] \<and>
             snd (step (Invoke (Some ''second'')) s') \<noteq> Some (Failed in_progress))"
proof -
  let ?s1 = "run [Invoke (Some ''first'')] (start example_manager [])"
  let ?s2 = "run [Invoke (Some ''first''), Settle 0] (start example_manager [])"
  have "suspended_calls ?s1 \<noteq> []"
    by (simp add: example_run_defs)
  with single_flight [of "[Invoke (Some ''first'')]" example_manager "[]"]
  have first: "snd (step (Invoke (Some ''second'')) ?s1) = Some (Failed in_progress)"
    by blast
  obtain s' out where st: "step (Settle 0) ?s2 = (s', out)"
    by (cases "step (Settle 0) ?s2") auto
  have "\<exists>res. snd (step (Settle 0) ?s2) = Some (Fulfilled res)"
    by (simp add: example_run_defs)
  with st obtain res where out: "out = Some (Fulfilled res)"
    by auto
  have "Fulfilled res \<noteq> Failed in_progress"
    by simp
  with single_flight [of "[Invoke (Some ''first''), Settle 0]" example_manager "[]"] st out
  have "\<not> isPredicting (the_predictor s') \<and> suspended_calls s' = [] \<and>
        snd (step (Invoke (Some ''second'')) s') \<noteq> Some (Failed in_progress)"
    by blast
  with first st out show ?thesis
    by blast
qed

end
